theory Spec2Isabelle
  imports Complex_Main "HOL-Library.Sublist"
begin

section \<open>Python values\<close>

text \<open>
  The program is Python. Its floats are modelled by the reals (no rounding error, no NaN
  or infinity), its unbounded integers by \<open>int\<close>, a \<open>bytes\<close> value by \<open>string\<close> (a list of
  bytes) and a \<open>str\<close> value by the list of its Unicode code points, so that \<open>len\<close> and
  indexing count what Python counts. Exceptions are values of the type \<open>exc\<close>; a function
  that can raise returns \<open>exc + 'a\<close>, with \<open>Inl\<close> for the exception.
\<close>

type_synonym bytes = string
type_synonym pystr = "nat list"

datatype exc =
    ZeroDivisionError
  | IndexError
  | KeyError
  | TimeoutError
  | OSError
  | EOFError
  | UnicodeEncodeError
  | KeyboardInterrupt

text \<open>\<open>except Exception\<close> catches every exception of the model but \<open>KeyboardInterrupt\<close>.\<close>

definition is_Exception :: "exc \<Rightarrow> bool" where
  "is_Exception e = (e \<noteq> KeyboardInterrupt)"

definition bindE :: "exc + 'a \<Rightarrow> ('a \<Rightarrow> exc + 'b) \<Rightarrow> exc + 'b" where
  "bindE m f = (case m of Inl e \<Rightarrow> Inl e | Inr x \<Rightarrow> f x)"

definition asc :: "string \<Rightarrow> pystr" where
  "asc s = map of_char s"

text \<open>
  \<open>str.encode()\<close>: the UTF-8 bytes of each code point (a \<open>str\<close> holds code points up to
  U+10FFFF); a surrogate (U+D800 to U+DFFF) cannot be encoded and raises.
\<close>

definition utf8_char :: "nat \<Rightarrow> exc + bytes" where
  "utf8_char c =
     (if c < 128 then Inr [char_of c]
      else if c < 2048 then Inr [char_of (192 + c div 64), char_of (128 + c mod 64)]
      else if 55296 \<le> c \<and> c \<le> 57343 then Inl UnicodeEncodeError
      else if c < 65536 then
        Inr [char_of (224 + c div 4096), char_of (128 + c div 64 mod 64),
             char_of (128 + c mod 64)]
      else
        Inr [char_of (240 + c div 262144), char_of (128 + c div 4096 mod 64),
             char_of (128 + c div 64 mod 64), char_of (128 + c mod 64)])"

fun encode :: "pystr \<Rightarrow> exc + bytes" where
  "encode [] = Inr []"
| "encode (c # cs) =
     (case utf8_char c of
        Inl e \<Rightarrow> Inl e
      | Inr b \<Rightarrow> (case encode cs of Inl e \<Rightarrow> Inl e | Inr bs \<Rightarrow> Inr (b @ bs)))"

text \<open>Indexing: a negative index counts from the end, an index out of range raises.\<close>

definition py_index :: "int \<Rightarrow> nat \<Rightarrow> nat option" where
  "py_index i n =
     (let j = (if i < 0 then i + int n else i)
      in if 0 \<le> j \<and> j < int n then Some (nat j) else None)"

definition py_get :: "'a list \<Rightarrow> int \<Rightarrow> exc + 'a" where
  "py_get xs i = (case py_index i (length xs) of None \<Rightarrow> Inl IndexError | Some j \<Rightarrow> Inr (xs ! j))"

definition py_set :: "'a list \<Rightarrow> int \<Rightarrow> 'a \<Rightarrow> exc + 'a list" where
  "py_set xs i v =
     (case py_index i (length xs) of None \<Rightarrow> Inl IndexError | Some j \<Rightarrow> Inr (xs[j := v]))"

text \<open>A slice bound is clipped to the list, never an error.\<close>

definition py_bound :: "int \<Rightarrow> nat \<Rightarrow> nat" where
  "py_bound i n = (if i < 0 then nat (max 0 (i + int n)) else min (nat i) n)"

definition slice_from :: "'a list \<Rightarrow> int \<Rightarrow> 'a list" where
  "slice_from xs i = drop (py_bound i (length xs)) xs"

definition slice_to :: "'a list \<Rightarrow> int \<Rightarrow> 'a list" where
  "slice_to xs i = take (py_bound i (length xs)) xs"

definition py_mod :: "int \<Rightarrow> int \<Rightarrow> exc + int" where
  "py_mod a b = (if b = 0 then Inl ZeroDivisionError else Inr (a mod b))"

definition py_div :: "real \<Rightarrow> real \<Rightarrow> exc + real" where
  "py_div a b = (if b = 0 then Inl ZeroDivisionError else Inr (a / b))"

text \<open>\<open>seq * n\<close> is empty for \<open>n \<le> 0\<close>.\<close>

definition py_repeat :: "'a \<Rightarrow> int \<Rightarrow> 'a list" where
  "py_repeat x n = replicate (nat n) x"

text \<open>\<open>round\<close> rounds a half to the even neighbour; \<open>int\<close> truncates towards zero.\<close>

definition py_round :: "real \<Rightarrow> int" where
  "py_round x =
     (let f = \<lfloor>x\<rfloor>; d = x - of_int f
      in if d < 1 / 2 then f else if 1 / 2 < d then f + 1 else if even f then f else f + 1)"

definition py_trunc :: "real \<Rightarrow> int" where
  "py_trunc x = (if 0 \<le> x then \<lfloor>x\<rfloor> else \<lceil>x\<rceil>)"

subsection \<open>Number formatting\<close>

definition digit_char :: "nat \<Rightarrow> char" where
  "digit_char d = ''0123456789'' ! d"

fun digits_of :: "nat \<Rightarrow> string" where
  "digits_of n =
     (if n < 10 then [digit_char n] else digits_of (n div 10) @ [digit_char (n mod 10)])"

declare digits_of.simps [simp del]

definition str_int :: "int \<Rightarrow> string" where
  "str_int i = (if i < 0 then ''-'' else '''') @ digits_of (nat \<bar>i\<bar>)"

text \<open>The digits of \<open>|x|\<close> with two decimals, as the format \<open>.2f\<close> prints them.\<close>

definition fixed2 :: "real \<Rightarrow> string" where
  "fixed2 x =
     (let n = nat (py_round (\<bar>x\<bar> * 100))
      in digits_of (n div 100) @ ''.'' @ [digit_char (n mod 100 div 10), digit_char (n mod 10)])"

definition fmt_2f :: "real \<Rightarrow> string" where
  "fmt_2f x = (if x < 0 then ''-'' else '''') @ fixed2 x"

definition pad_left :: "nat \<Rightarrow> string \<Rightarrow> string" where
  "pad_left w s = replicate (w - length s) CHR '' '' @ s"

definition fmt_5_2f :: "real \<Rightarrow> string" where
  "fmt_5_2f x = pad_left 5 (fmt_2f x)"

definition fmt_plus_2f :: "real \<Rightarrow> string" where
  "fmt_plus_2f x = (if x < 0 then ''-'' else ''+'') @ fixed2 x"

section \<open>terminal\_graphs.py\<close>

subsection \<open>ShoeAnimation\<close>

record ShoeAnimation =
  shoe_states :: "string \<rightharpoonup> pystr"
  landing_message :: pystr

definition shoe_prefix :: pystr where
  "shoe_prefix = [128095] @ asc '' Step: ['' @ [9644, 9644, 9644] @ asc ''] ''"

definition ShoeAnimation_init :: ShoeAnimation where
  "ShoeAnimation_init =
     \<lparr> shoe_states = map_of
         [(''ready'', shoe_prefix @ asc ''Ready''),
          (''lifting'', shoe_prefix @ asc ''Lifting...''),
          (''striding'', shoe_prefix @ [8599] @ asc '' Striding''),
          (''landing'', shoe_prefix @ [8600] @ asc '' Landing!'')],
       landing_message = [129462] @ asc '' STEP LANDED! '' @ [129462] \<rparr>"

definition dict_get :: "('k \<rightharpoonup> 'v) \<Rightarrow> 'k \<Rightarrow> exc + 'v" where
  "dict_get m k = (case m k of None \<Rightarrow> Inl KeyError | Some v \<Rightarrow> Inr v)"

definition get_shoe_state :: "ShoeAnimation \<Rightarrow> real \<Rightarrow> bool \<Rightarrow> exc + pystr" where
  "get_shoe_state self sine_value step_detected =
     (if step_detected \<and> sine_value \<ge> 0.5 then dict_get (shoe_states self) ''landing''
      else if sine_value \<ge> 0.3 then dict_get (shoe_states self) ''striding''
      else if sine_value \<ge> -0.3 then dict_get (shoe_states self) ''lifting''
      else dict_get (shoe_states self) ''ready'')"

definition get_landing_line :: "ShoeAnimation \<Rightarrow> bool \<Rightarrow> pystr" where
  "get_landing_line self step_detected = (if step_detected then landing_message self else [])"

subsection \<open>DataBuffer\<close>

record DataBuffer =
  size :: int
  buffer :: "real list"
  index :: int
  has_data :: bool

definition DataBuffer_init :: "int \<Rightarrow> DataBuffer" where
  "DataBuffer_init sz = \<lparr> size = sz, buffer = py_repeat 0 sz, index = 0, has_data = False \<rparr>"

definition add_value :: "DataBuffer \<Rightarrow> real \<Rightarrow> exc + DataBuffer" where
  "add_value self v =
     bindE (py_set (buffer self) (index self) v) (\<lambda>buf.
     bindE (py_mod (index self + 1) (size self)) (\<lambda>idx.
     Inr (self \<lparr> buffer := buf, index := idx, has_data := True \<rparr>)))"

definition get_display_values :: "DataBuffer \<Rightarrow> real list" where
  "get_display_values self =
     slice_from (buffer self) (index self) @ slice_to (buffer self) (index self)"

text \<open>The outer \<open>option\<close> is Python's \<open>None\<close> for a buffer that never received a value.\<close>

definition get_current_value :: "DataBuffer \<Rightarrow> exc + real option" where
  "get_current_value self =
     (if \<not> has_data self then Inr None
      else bindE (py_mod (index self - 1) (size self)) (\<lambda>current_index.
           bindE (py_get (buffer self) current_index) (\<lambda>v. Inr (Some v))))"

text \<open>Inserting a list of values one after the other; the first exception ends the run.\<close>

fun add_values :: "DataBuffer \<Rightarrow> real list \<Rightarrow> exc + DataBuffer" where
  "add_values self [] = Inr self"
| "add_values self (v # vs) = bindE (add_value self v) (\<lambda>b. add_values b vs)"

subsection \<open>Terminal output\<close>

text \<open>
  Standard output is the sequence of code points written so far. \<open>print(s)\<close> writes
  \<open>s\<close> and a newline, \<open>print(s, end="")\<close> writes \<open>s\<close> alone. The number of terminal lines
  emitted is the number of newlines written.
\<close>

definition print_line :: "pystr \<Rightarrow> pystr \<Rightarrow> pystr" where
  "print_line s out = out @ s @ [10]"

definition print_noend :: "pystr \<Rightarrow> pystr \<Rightarrow> pystr" where
  "print_noend s out = out @ s"

definition count_lines :: "pystr \<Rightarrow> nat" where
  "count_lines out = count_list out 10"

text \<open>The escape sequence \<open>ESC [2K\<close> that clears the line.\<close>

definition CLEAR :: pystr where
  "CLEAR = [27] @ asc ''[2K''"

subsection \<open>BarGraph\<close>

text \<open>The fields \<open>width\<close>, \<open>min_val\<close>, \<open>max_val\<close> and \<open>label\<close> of the class, prefixed.\<close>

record BarGraph =
  bar_width :: int
  bar_min_val :: real
  bar_max_val :: real
  bar_label :: string

definition BarGraph_init :: "int \<Rightarrow> real \<times> real \<Rightarrow> string \<Rightarrow> BarGraph" where
  "BarGraph_init w value_range lab =
     \<lparr> bar_width = w, bar_min_val = fst value_range, bar_max_val = snd value_range,
       bar_label = lab \<rparr>"

definition BarGraph_plot :: "BarGraph \<Rightarrow> real \<Rightarrow> pystr \<Rightarrow> exc + pystr" where
  "BarGraph_plot self v out =
     (let clamped_value = max (bar_min_val self) (min v (bar_max_val self))
      in bindE (py_div (clamped_value - bar_min_val self) (bar_max_val self - bar_min_val self))
           (\<lambda>normalized.
              let bar_length = py_trunc (normalized * of_int (bar_width self));
                  bar = py_repeat CHR ''#'' bar_length
              in Inr (print_line (asc (bar_label self @ '': '' @ fmt_5_2f v @ '' | '' @ bar)) out)))"

subsection \<open>SineWaveGraph\<close>

record SineWaveGraph =
  width :: int
  height :: int
  min_val :: real
  max_val :: real
  sine_buffer :: DataBuffer
  row_labels :: "pystr list"

fun collect :: "(exc + 'a) list \<Rightarrow> exc + 'a list" where
  "collect [] = Inr []"
| "collect (m # ms) = bindE m (\<lambda>x. bindE (collect ms) (\<lambda>xs. Inr (x # xs)))"

definition row_label :: "real \<Rightarrow> real \<Rightarrow> int \<Rightarrow> nat \<Rightarrow> exc + pystr" where
  "row_label mn mx h i =
     bindE (py_div (real i * (mx - mn)) (of_int (h - 1))) (\<lambda>q.
       let row_value = mx - q
       in Inr (if \<bar>row_value\<bar> < 0.01 then asc '' 0.0 |''
               else asc (fmt_5_2f row_value @ ''|'')))"

definition SineWaveGraph_init :: "int \<Rightarrow> int \<Rightarrow> real \<times> real \<Rightarrow> exc + SineWaveGraph" where
  "SineWaveGraph_init w h value_range =
     (let mn = fst value_range; mx = snd value_range
      in bindE (collect (map (row_label mn mx h) [0 ..< nat h])) (\<lambda>labels.
           Inr \<lparr> width = w, height = h, min_val = mn, max_val = mx,
                 sine_buffer = DataBuffer_init w, row_labels = labels \<rparr>))"

definition value_to_row :: "SineWaveGraph \<Rightarrow> real \<Rightarrow> exc + real" where
  "value_to_row self v =
     (let clamped = max (min_val self) (min v (max_val self))
      in bindE (py_div (clamped - min_val self) (max_val self - min_val self)) (\<lambda>normalized.
           Inr ((1 - normalized) * of_int (height self - 1))))"

subsection \<open>DualGraph\<close>

record DualGraph =
  bar_graph :: BarGraph
  sine_graph :: SineWaveGraph
  shoe_animation :: ShoeAnimation
  first_render :: bool
  total_lines :: int

definition DualGraph_init ::
  "int \<Rightarrow> real \<times> real \<Rightarrow> int \<Rightarrow> int \<Rightarrow> real \<times> real \<Rightarrow> exc + DualGraph" where
  "DualGraph_init bw bar_range sw sh sine_range =
     bindE (SineWaveGraph_init sw sh sine_range) (\<lambda>sg.
       Inr \<lparr> bar_graph = BarGraph_init bw bar_range ''Accel'', sine_graph = sg,
             shoe_animation = ShoeAnimation_init, first_render = True,
             total_lines = 4 + sh \<rparr>)"

text \<open>The trail character of a sample by its age: U+25CF, U+2022, U+00B7 and the full stop.\<close>

definition trail_char :: "int \<Rightarrow> nat" where
  "trail_char age =
     (if age = 0 then 9679 else if age < 5 then 8226 else if age < 15 then 183 else 46)"

text \<open>One round of the loop over \<open>enumerate(values)\<close>; \<open>n\<close> is \<open>len(values)\<close>.\<close>

definition plot_point ::
  "SineWaveGraph \<Rightarrow> nat \<Rightarrow> pystr list \<Rightarrow> nat \<times> real \<Rightarrow> exc + pystr list" where
  "plot_point sg n rows p =
     (let i = fst p; v = snd p
      in bindE (value_to_row sg v) (\<lambda>target_row.
         let row_idx = py_round target_row
         in if 0 \<le> row_idx \<and> row_idx < height sg then
              (let age = int n - int i - 1; ch = trail_char age
               in bindE (py_get (row_labels sg) 0) (\<lambda>label0.
                  let pos = int (length label0) + int i
                  in bindE (py_get rows row_idx) (\<lambda>row.
                     if pos < int (length row) then
                       bindE (py_set row pos ch) (\<lambda>row_list. py_set rows row_idx row_list)
                     else Inr rows)))
            else Inr rows))"

fun plot_points ::
  "SineWaveGraph \<Rightarrow> nat \<Rightarrow> pystr list \<Rightarrow> (nat \<times> real) list \<Rightarrow> exc + pystr list" where
  "plot_points sg n rows [] = Inr rows"
| "plot_points sg n rows (p # ps) = bindE (plot_point sg n rows p) (\<lambda>rows'. plot_points sg n rows' ps)"

definition current_indicator :: "SineWaveGraph \<Rightarrow> pystr list \<Rightarrow> exc + pystr list" where
  "current_indicator sg rows =
     bindE (get_current_value (sine_buffer sg)) (\<lambda>cv.
       case cv of
         None \<Rightarrow> Inr rows
       | Some current_value \<Rightarrow>
           bindE (value_to_row sg current_value) (\<lambda>r.
             let current_row = py_round r
             in if 0 \<le> current_row \<and> current_row < height sg then
                  bindE (py_get rows current_row) (\<lambda>row.
                    py_set rows current_row
                      (row @ asc '' '' @ [8592] @ asc ('' Current: '' @ fmt_plus_2f current_value)))
                else Inr rows))"

definition print_rows :: "pystr list \<Rightarrow> pystr \<Rightarrow> pystr" where
  "print_rows rows out = foldl (\<lambda>acc row. print_line row (print_noend CLEAR acc)) out rows"

text \<open>
  \<open>_render_sine_wave\<close> in two parts: the rows as they stand before the last loop, and
  the loop that prints them.
\<close>

definition sine_rows :: "SineWaveGraph \<Rightarrow> exc + pystr list" where
  "sine_rows sg =
     (let values = get_display_values (sine_buffer sg);
          rows0 = map (\<lambda>label. label @ py_repeat 32 (width sg)) (row_labels sg)
      in bindE (if has_data (sine_buffer sg)
                then plot_points sg (length values) rows0 (zip [0 ..< length values] values)
                else Inr rows0) (\<lambda>rows1.
         current_indicator sg rows1))"

definition render_sine_wave :: "DualGraph \<Rightarrow> pystr \<Rightarrow> exc + pystr" where
  "render_sine_wave self out =
     bindE (sine_rows (sine_graph self)) (\<lambda>rows. Inr (print_rows rows out))"

text \<open>
  \<open>DualGraph.plot\<close>: the new state of the object and of standard output, or the exception
  raised (the output written before an exception is not kept).
\<close>

definition plot :: "DualGraph \<Rightarrow> real \<Rightarrow> real \<Rightarrow> bool \<Rightarrow> pystr \<Rightarrow> exc + DualGraph \<times> pystr" where
  "plot self accel_value sine_value step_impact out0 =
     bindE (add_value (sine_buffer (sine_graph self)) sine_value) (\<lambda>buf.
     let self1 = self \<lparr> sine_graph := (sine_graph self) \<lparr> sine_buffer := buf \<rparr> \<rparr>;
         out1 = (if \<not> first_render self1
                 then print_noend ([27] @ asc (''['' @ str_int (total_lines self1) @ ''A'')) out0
                 else out0);
         out2 = print_noend CLEAR out1;
         bg = bar_graph self1;
         clamped_value = max (bar_min_val bg) (min accel_value (bar_max_val bg))
     in bindE (py_div (clamped_value - bar_min_val bg) (bar_max_val bg - bar_min_val bg))
          (\<lambda>normalized.
     let bar_length = py_trunc (normalized * of_int (bar_width bg));
         bar = py_repeat CHR ''#'' bar_length;
         out3 = print_line (asc (''Accel: '' @ fmt_5_2f accel_value @ '' | '' @ bar)) out2;
         out4 = print_noend CLEAR out3
     in bindE (get_shoe_state (shoe_animation self1) sine_value step_impact) (\<lambda>shoe_state.
     let out5 = print_line shoe_state out4;
         out6 = print_noend CLEAR out5;
         out7 = print_line (get_landing_line (shoe_animation self1) step_impact) out6;
         out8 = print_line CLEAR out7
     in bindE (render_sine_wave self1 out8) (\<lambda>out9.
     Inr (self1 \<lparr> first_render := False \<rparr>, out9)))))"

text \<open>A run of calls of \<open>plot\<close> on one object: the lines each call emitted.\<close>

fun plot_run :: "DualGraph \<Rightarrow> pystr \<Rightarrow> (real \<times> real \<times> bool) list \<Rightarrow> exc + nat list" where
  "plot_run g out [] = Inr []"
| "plot_run g out ((a, s, b) # xs) =
     bindE (plot g a s b out) (\<lambda>r.
       bindE (plot_run (fst r) (snd r) xs) (\<lambda>ns.
         Inr ((count_lines (snd r) - count_lines out) # ns)))"

section \<open>telnet.py\<close>

text \<open>
  The socket of a \<open>TelnetConnection\<close> is the list of what the next calls of \<open>recv\<close> do:
  deliver a chunk of bytes, or exceed the timeout. When the list is used up the peer has
  closed the connection, and \<open>recv\<close> returns the empty bytes on every further call, as a
  socket at end of stream does.
\<close>

datatype recv_event = Chunk bytes | TimedOut

type_synonym sock = "recv_event list"

fun recv :: "sock \<Rightarrow> (exc + bytes) \<times> sock" where
  "recv [] = (Inr [], [])"
| "recv (Chunk c # rest) = (Inr c, rest)"
| "recv (TimedOut # rest) = (Inl TimeoutError, rest)"

text \<open>\<open>expected in data\<close> on bytes: \<open>expected\<close> occurs as a contiguous run.\<close>

fun contains :: "'a list \<Rightarrow> 'a list \<Rightarrow> bool" where
  "contains xs [] = (xs = [])"
| "contains xs (y # ys) = (prefix xs (y # ys) \<or> contains xs ys)"

text \<open>
  The loop of \<open>read_until\<close>, from the accumulated \<open>data\<close>. The result \<open>None\<close> is a loop that
  never ends.
\<close>

partial_function (option) read_until_loop ::
  "bytes \<Rightarrow> bytes \<Rightarrow> sock \<Rightarrow> ((exc + bytes) \<times> sock) option" where
  "read_until_loop expected data s =
     (if contains expected data then Some (Inr data, s)
      else (case recv s of
              (Inl e, s') \<Rightarrow> Some (Inl e, s')
            | (Inr c, s') \<Rightarrow> read_until_loop expected (data @ c) s'))"

definition read_until :: "sock \<Rightarrow> bytes \<Rightarrow> ((exc + bytes) \<times> sock) option" where
  "read_until s expected = read_until_loop expected [] s"

section \<open>mockstep.py\<close>

definition AMPLITUDE :: real where
  "AMPLITUDE = 2.0"

definition Y_BASELINE :: real where
  "Y_BASELINE = 9.8"

subsection \<open>The channel to the emulator\<close>

text \<open>
  The emulator is a \<open>telnetlib.Telnet\<close> object of the standard library. The model records
  the calls the program makes on it; what each call does (return, or raise) is given from
  outside, as a reply. Console messages of \<open>mockstep.py\<close> itself are not recorded.
\<close>

datatype call =
    Open string int
  | Write bytes
  | ReadUntil bytes nat
  | Close

subsection \<open>connect\_to\_emulator\<close>

record handshake_env =
  open_reply :: "exc option"
  banner_reply :: "exc + bytes"
  auth_write_reply :: "exc option"
  auth_response :: "exc + bytes"

text \<open>
  The result is the calls made and what the function returns: \<open>Inr True\<close> for the
  emulator object, \<open>Inr False\<close> for \<open>None\<close>, \<open>Inl e\<close> for an exception that
  \<open>except Exception\<close> does not catch. \<open>not auth_token\<close> holds for \<open>None\<close> and for the empty
  string. The token is a \<open>str\<close>; the command is encoded before \<open>write\<close> is called, and a
  token that cannot be encoded raises there.
\<close>

definition catch_Exception :: "exc \<Rightarrow> exc + bool" where
  "catch_Exception e = (if is_Exception e then Inr False else Inl e)"

definition connect_to_emulator ::
  "handshake_env \<Rightarrow> string \<Rightarrow> int \<Rightarrow> pystr option \<Rightarrow> call list \<times> (exc + bool)" where
  "connect_to_emulator env host port auth_token =
     (case open_reply env of
        Some e \<Rightarrow> ([Open host port], catch_Exception e)
      | None \<Rightarrow>
     (case banner_reply env of
        Inl e \<Rightarrow> ([Open host port, ReadUntil ''OK'' 10], catch_Exception e)
      | Inr banner \<Rightarrow>
     (if auth_token = None \<or> auth_token = Some []
      then ([Open host port, ReadUntil ''OK'' 10], Inr False)
      else
     (case encode (asc ''auth '' @ the auth_token @ [10]) of
        Inl e \<Rightarrow> ([Open host port, ReadUntil ''OK'' 10], catch_Exception e)
      | Inr cmd \<Rightarrow>
     (case auth_write_reply env of
        Some e \<Rightarrow> ([Open host port, ReadUntil ''OK'' 10, Write cmd], catch_Exception e)
      | None \<Rightarrow>
     (case auth_response env of
        Inl e \<Rightarrow>
          ([Open host port, ReadUntil ''OK'' 10, Write cmd, ReadUntil ''OK'' 10],
           catch_Exception e)
      | Inr response \<Rightarrow>
          ([Open host port, ReadUntil ''OK'' 10, Write cmd, ReadUntil ''OK'' 10],
           if contains ''KO'' response then Inr False else Inr True)))))))"

subsection \<open>set\_sensor\_data\<close>

text \<open>
  The calls made and the exception that leaves the function: \<open>except Exception\<close> swallows
  every failure of the channel, an interrupt passes through.
\<close>

definition uncaught :: "exc \<Rightarrow> exc option" where
  "uncaught e = (if is_Exception e then None else Some e)"

definition set_sensor_data ::
  "exc option \<Rightarrow> exc option \<Rightarrow> string \<Rightarrow> real \<Rightarrow> real \<Rightarrow> real \<Rightarrow> call list \<times> exc option" where
  "set_sensor_data write_reply read_reply sensor x y z =
     (let command = ''sensor set '' @ sensor @ '' '' @ fmt_2f x @ '':'' @ fmt_2f y @ '':''
                      @ fmt_2f z @ [CHR 0x0A]
      in case write_reply of
           Some e \<Rightarrow> ([Write command], uncaught e)
         | None \<Rightarrow>
             (case read_reply of
                Some e \<Rightarrow> ([Write command, ReadUntil ''OK'' 2], uncaught e)
              | None \<Rightarrow> ([Write command, ReadUntil ''OK'' 2], None)))"

subsection \<open>generate\_walking\_acceleration\<close>

definition generate_walking_acceleration :: "int \<Rightarrow> real \<times> real \<times> real" where
  "generate_walking_acceleration step =
     (let frequency = 1.25;
          x = 0.0;
          y = Y_BASELINE + AMPLITUDE * sin (frequency * of_int step);
          z = 0.0
      in (x, y, z))"

subsection \<open>run\_simulation\<close>

record sim_state =
  step_counter :: int
  previous_y :: real
  was_rising :: bool
  dual_graph :: DualGraph
  stdout :: pystr
  calls :: "call list"

text \<open>What the channel and the sleep of one round of the loop do.\<close>

record tick_env =
  write_reply :: "exc option"
  read_reply :: "exc option"
  sleep_interrupted :: bool

text \<open>
  One round of the \<open>while True\<close> loop: the state reached, and the exception that ends the
  loop if there is one.
\<close>

definition sim_tick :: "sim_state \<Rightarrow> tick_env \<Rightarrow> sim_state \<times> exc option" where
  "sim_tick st env =
     (let frequency = 1.25;
          xyz = generate_walking_acceleration (step_counter st);
          x = fst xyz; y = fst (snd xyz); z = snd (snd xyz);
          sent = set_sensor_data (write_reply env) (read_reply env) ''acceleration'' x y z;
          st1 = st \<lparr> calls := calls st @ fst sent \<rparr>
      in case snd sent of
           Some e \<Rightarrow> (st1, Some e)
         | None \<Rightarrow>
             (let sine_value = sin (frequency * of_int (step_counter st));
                  is_rising_now = (y > previous_y st);
                  step_detected = (was_rising st \<and> \<not> is_rising_now)
              in case plot (dual_graph st) y sine_value step_detected (stdout st) of
                   Inl e \<Rightarrow> (st1, Some e)
                 | Inr r \<Rightarrow>
                     (let st2 = st1 \<lparr> dual_graph := fst r, stdout := snd r,
                                      was_rising := is_rising_now, previous_y := y,
                                      step_counter := step_counter st + 1 \<rparr>
                      in if sleep_interrupted env then (st2, Some KeyboardInterrupt)
                         else (st2, None))))"

text \<open>
  The loop never ends by itself. It is run against the list of what each round meets; a
  list used up with the loop still running gives \<open>None\<close>.
\<close>

fun sim_loop :: "sim_state \<Rightarrow> tick_env list \<Rightarrow> (sim_state \<times> exc) option" where
  "sim_loop st [] = None"
| "sim_loop st (env # envs) =
     (case sim_tick st env of
        (st', Some e) \<Rightarrow> Some (st', e)
      | (st', None) \<Rightarrow> sim_loop st' envs)"

record cleanup_env =
  final_write_reply :: "exc option"
  final_read_reply :: "exc option"
  close_reply :: "exc option"

text \<open>
  The \<open>finally\<close> block, after the calls \<open>cs\<close> of the loop; \<open>pending\<close> is the exception that
  goes on after the block, replaced by one raised in the block itself.
\<close>

definition cleanup :: "cleanup_env \<Rightarrow> call list \<Rightarrow> exc option \<Rightarrow> call list \<times> exc option" where
  "cleanup cenv cs pending =
     (let sent = set_sensor_data (final_write_reply cenv) (final_read_reply cenv)
                   ''acceleration'' 0 9.8 0
      in case snd sent of
           Some e \<Rightarrow> (cs @ fst sent, Some e)
         | None \<Rightarrow>
             (case close_reply cenv of
                Some e \<Rightarrow> (cs @ fst sent @ [Close], Some e)
              | None \<Rightarrow> (cs @ fst sent @ [Close], pending)))"

text \<open>The state at the head of the loop, with the graph just built.\<close>

definition sim_init :: "DualGraph \<Rightarrow> sim_state" where
  "sim_init g =
     \<lparr> step_counter = 0, previous_y = Y_BASELINE, was_rising = False, dual_graph = g,
       stdout = [], calls = [] \<rparr>"

text \<open>
  The calls made on the channel and the exception that leaves \<open>run_simulation\<close>, if any.
  The graph is built before the \<open>try\<close>.
\<close>

definition run_simulation ::
  "tick_env list \<Rightarrow> cleanup_env \<Rightarrow> int \<Rightarrow> int \<Rightarrow> int \<Rightarrow> (call list \<times> exc option) option" where
  "run_simulation envs cenv bar_w sine_w sine_h =
     (case DualGraph_init bar_w (Y_BASELINE - AMPLITUDE, Y_BASELINE + AMPLITUDE)
             sine_w sine_h (-1, 1) of
        Inl e \<Rightarrow> Some ([], Some e)
      | Inr g \<Rightarrow>
          (case sim_loop (sim_init g) envs of
             None \<Rightarrow> None
           | Some (st, e) \<Rightarrow>
               Some (cleanup cenv (calls st)
                       (if e = KeyboardInterrupt then None else Some e))))"

subsection \<open>The step detector\<close>

text \<open>
  The three lines of the loop that detect a step, on their own: from \<open>previous_y\<close>,
  \<open>was_rising\<close> and the new \<open>y\<close> to \<open>step_detected\<close> and the new pair.
\<close>

definition detect :: "real \<times> bool \<Rightarrow> real \<Rightarrow> bool \<times> (real \<times> bool)" where
  "detect st y =
     (let is_rising_now = (y > fst st);
          step_detected = (snd st \<and> \<not> is_rising_now)
      in (step_detected, (y, is_rising_now)))"

text \<open>The generated trace: the \<open>y\<close> of tick \<open>n\<close>.\<close>

definition trace_y :: "nat \<Rightarrow> real" where
  "trace_y n = fst (snd (generate_walking_acceleration (int n)))"

text \<open>The detector state before tick \<open>n\<close> of the generated trace, and the flag of tick \<open>n\<close>.\<close>

fun detector_state :: "nat \<Rightarrow> real \<times> bool" where
  "detector_state 0 = (Y_BASELINE, False)"
| "detector_state (Suc n) =
     snd (detect (detector_state n) (fst (snd (generate_walking_acceleration (int n)))))"

definition step_detected_at :: "nat \<Rightarrow> bool" where
  "step_detected_at n =
     fst (detect (detector_state n) (fst (snd (generate_walking_acceleration (int n)))))"

subsection \<open>main\<close>

record preset =
  p_bar_width :: int
  p_sine_width :: int
  p_sine_height :: int

definition SIZE_PRESETS :: "string \<rightharpoonup> preset" where
  "SIZE_PRESETS = map_of
     [(''small'', \<lparr> p_bar_width = 30, p_sine_width = 40, p_sine_height = 7 \<rparr>),
      (''medium'', \<lparr> p_bar_width = 50, p_sine_width = 60, p_sine_height = 9 \<rparr>),
      (''large'', \<lparr> p_bar_width = 80, p_sine_width = 100, p_sine_height = 15 \<rparr>),
      (''xl'', \<lparr> p_bar_width = 120, p_sine_width = 150, p_sine_height = 20 \<rparr>)]"

text \<open>The parsed command line; an option that was not given is \<open>None\<close>.\<close>

record args =
  arg_port :: int
  arg_token :: "pystr option"
  arg_size :: string
  arg_bar_width :: "int option"
  arg_sine_width :: "int option"
  arg_sine_height :: "int option"

definition or_preset :: "int option \<Rightarrow> int \<Rightarrow> int" where
  "or_preset a p = (case a of Some v \<Rightarrow> v | None \<Rightarrow> p)"

definition resolve_dimensions :: "args \<Rightarrow> exc + int \<times> int \<times> int" where
  "resolve_dimensions a =
     bindE (dict_get SIZE_PRESETS (arg_size a)) (\<lambda>preset.
       let bar_w = or_preset (arg_bar_width a) (p_bar_width preset);
           sine_w = or_preset (arg_sine_width a) (p_sine_width preset);
           sine_h = or_preset (arg_sine_height a) (p_sine_height preset)
       in Inr (bar_w, sine_w, sine_h))"







section \<open>Invariants\<close>

text \<open>
  A round of the loop in which the user interrupts: during the write, during the read
  that follows a write that returned, or during the sleep.
\<close>

definition interrupts :: "tick_env \<Rightarrow> bool" where
  "interrupts env =
     (write_reply env = Some KeyboardInterrupt
      \<or> (write_reply env = None \<and> read_reply env = Some KeyboardInterrupt)
      \<or> sleep_interrupted env)"

text \<open>The command that resets the sensor to the neutral reading.\<close>

definition neutral_command :: bytes where
  "neutral_command = ''sensor set acceleration 0.00:9.80:0.00'' @ [CHR 0x0A]"

text \<open>A well-formed buffer of capacity \<open>N\<close>: the cursor is inside the storage.\<close>

definition buf_ok :: "int \<Rightarrow> DataBuffer \<Rightarrow> bool" where
  "buf_ok N b = (size b = N \<and> length (buffer b) = nat N \<and> 0 \<le> index b \<and> index b < N)"

text \<open>A piece of text without a newline: printing it stays on the line.\<close>

definition no_nl :: "pystr \<Rightarrow> bool" where
  "no_nl s = (10 \<notin> set s)"

text \<open>
  What one call of \<open>plot\<close> writes: the cursor movement, then the bar line, the shoe-state
  line, the landing line, the blank line and the rows of the sine wave, each after the
  escape sequence that clears its line.
\<close>

definition frame :: "pystr \<Rightarrow> pystr \<Rightarrow> pystr \<Rightarrow> pystr \<Rightarrow> pystr list \<Rightarrow> pystr" where
  "frame up bar shoe landing rows =
     up @ CLEAR @ bar @ [10] @ CLEAR @ shoe @ [10] @ CLEAR @ landing @ [10] @ CLEAR @ [10]
        @ concat (map (\<lambda>row. CLEAR @ row @ [10]) rows)"

text \<open>
  The texts of a frame that do not come from a function of the program: the cursor
  movement, which every call but the first on an object writes, and the bar line.
\<close>

definition cursor_up :: "DualGraph \<Rightarrow> pystr" where
  "cursor_up g =
     (if first_render g then [] else [27] @ asc (''['' @ str_int (total_lines g) @ ''A''))"

definition bar_line :: "BarGraph \<Rightarrow> real \<Rightarrow> pystr" where
  "bar_line bg v =
     asc (''Accel: '' @ fmt_5_2f v @ '' | ''
          @ replicate
              (nat (py_trunc ((max (bar_min_val bg) (min v (bar_max_val bg)) - bar_min_val bg)
                               / (bar_max_val bg - bar_min_val bg) * of_int (bar_width bg))))
              CHR ''#'')"

text \<open>
  A dual graph of sine height \<open>h\<close> over a buffer of capacity \<open>w\<close> on which \<open>plot\<close> can run:
  one label per row, a well-formed buffer, and ranges that are not a single point.
\<close>

definition dg_ok :: "int \<Rightarrow> int \<Rightarrow> DualGraph \<Rightarrow> bool" where
  "dg_ok w h g =
     (height (sine_graph g) = h
      \<and> length (row_labels (sine_graph g)) = nat h
      \<and> list_all no_nl (row_labels (sine_graph g))
      \<and> buf_ok w (sine_buffer (sine_graph g))
      \<and> min_val (sine_graph g) \<noteq> max_val (sine_graph g)
      \<and> bar_min_val (bar_graph g) \<noteq> bar_max_val (bar_graph g)
      \<and> shoe_animation g = ShoeAnimation_init
      \<and> total_lines g = 4 + h)"

text \<open>
  A run: build the dual graph, call \<open>plot\<close> once for each triple of arguments, and give
  \<open>total_lines\<close> together with the number of lines each call emitted.
\<close>

definition plot_session ::
  "int \<Rightarrow> real \<times> real \<Rightarrow> int \<Rightarrow> int \<Rightarrow> real \<times> real \<Rightarrow> (real \<times> real \<times> bool) list
     \<Rightarrow> exc + int \<times> nat list" where
  "plot_session bw bar_range sw sh sine_range xs =
     bindE (DualGraph_init bw bar_range sw sh sine_range) (\<lambda>g.
       bindE (plot_run g [] xs) (\<lambda>ns. Inr (total_lines g, ns)))"

text \<open>
  The rounds of the loop one after the other, with the state they reach: the state at
  the exception that ends the loop, or the state after the last round given.
\<close>

fun sim_rounds :: "sim_state \<Rightarrow> tick_env list \<Rightarrow> sim_state \<times> exc option" where
  "sim_rounds st [] = (st, None)"
| "sim_rounds st (env # envs) =
     (case sim_tick st env of
        (st', Some e) \<Rightarrow> (st', Some e)
      | (st', None) \<Rightarrow> sim_rounds st' envs)"

section \<open>The circular buffer\<close>

lemma buf_ok_init: "1 \<le> N \<Longrightarrow> buf_ok N (DataBuffer_init N)"
  by (simp add: buf_ok_def DataBuffer_init_def py_repeat_def)

lemma display_init: "get_display_values (DataBuffer_init N) = replicate (nat N) 0"
  by (simp add: get_display_values_def DataBuffer_init_def py_repeat_def slice_from_def slice_to_def py_bound_def)

lemma display_nat:
  assumes "buf_ok N b"
  shows "get_display_values b = drop (nat (index b)) (buffer b) @ take (nat (index b)) (buffer b)"
  using assms by (simp add: buf_ok_def get_display_values_def slice_from_def slice_to_def py_bound_def)

lemma py_index_nat: "i < n \<Longrightarrow> py_index (int i) n = Some i"
  by (simp add: py_index_def)

lemma add_value_ok:
  assumes ok: "buf_ok N b"
  shows "\<exists>b'. add_value b v = Inr b' \<and> buf_ok N b' \<and> has_data b'
           \<and> index b' = (index b + 1) mod N
           \<and> get_display_values b' = tl (get_display_values b) @ [v]
           \<and> get_current_value b' = Inr (Some v)"
proof -
  define i where "i = nat (index b)"
  define xs where "xs = buffer b"
  from ok have N: "1 \<le> N" and sz: "size b = N" and len: "length xs = nat N"
    and idx: "index b = int i" and iN: "i < nat N"
    by (auto simp: buf_ok_def i_def xs_def)
  define b' where "b' = b \<lparr> buffer := xs[i := v], index := (int i + 1) mod N, has_data := True \<rparr>"
  have set: "py_set (buffer b) (int i) v = Inr (xs[i := v])"
    using iN len by (simp add: py_set_def py_index_nat xs_def)
  have av: "add_value b v = Inr b'"
    using N by (simp add: add_value_def set bindE_def py_mod_def sz b'_def idx)
  have ok': "buf_ok N b'"
    using N len by (simp add: buf_ok_def b'_def sz)
  have disp: "get_display_values b' = tl (get_display_values b) @ [v]"
  proof (cases "Suc i < nat N")
    case True
    then have m: "(int i + 1) mod N = int (Suc i)" by (simp add: nat_less_iff)
    have "drop i xs \<noteq> []" using iN len by simp
    then have t: "tl (drop i xs @ take i xs) = drop (Suc i) xs @ take i xs"
      by (simp add: drop_Suc tl_drop)
    have n1: "nat (1 + int i) = Suc i" by simp
    have "get_display_values b' = drop (Suc i) (xs[i := v]) @ take (Suc i) (xs[i := v])"
      using display_nat [OF ok'] by (simp add: b'_def m n1)
    also have "\<dots> = drop (Suc i) xs @ take i xs @ [v]"
      using iN len by (simp add: take_Suc_conv_app_nth)
    finally show ?thesis
      using display_nat [OF ok] t by (simp add: idx xs_def)
  next
    case False
    with iN have e: "Suc i = nat N" by simp
    then have "int i + 1 = N" using N by linarith
    then have m: "(int i + 1) mod N = 0" by simp
    have d: "drop i xs = [xs ! i]"
      using e len by (metis Cons_nth_drop_Suc drop_all lessI order_refl)
    have "get_display_values b' = xs[i := v]"
      using display_nat [OF ok'] by (simp add: b'_def m)
    also have "\<dots> = take i xs @ [v]"
      using e len by (metis lessI list_update_length take_all upd_conv_take_nth_drop append_Nil2 drop_all order_refl Suc_leI le_refl)
    finally show ?thesis
      using display_nat [OF ok] d by (simp add: idx xs_def)
  qed
  have "((int i + 1) mod N - 1) mod N = int i"
    using iN N by (simp add: mod_diff_left_eq nat_less_iff)
  then have cur: "get_current_value b' = Inr (Some v)"
    using iN len N by (simp add: get_current_value_def b'_def py_mod_def sz bindE_def py_get_def py_index_nat)
  show ?thesis
    using av ok' disp cur by (simp add: b'_def idx)
qed


lemma display_length: "buf_ok N b \<Longrightarrow> length (get_display_values b) = nat N"
  by (auto simp: display_nat buf_ok_def)

lemma drop_tl_snoc: "d \<noteq> [] \<Longrightarrow> drop n (tl d @ [v] @ vs) = drop (Suc n) (d @ v # vs)"
  by (cases d) simp_all

lemma add_values_ok:
  "buf_ok N b \<Longrightarrow>
   \<exists>b'. add_values b vs = Inr b' \<and> buf_ok N b'
      \<and> index b' = (index b + int (length vs)) mod N
      \<and> get_display_values b' = drop (length vs) (get_display_values b @ vs)
      \<and> (vs \<noteq> [] \<longrightarrow> get_current_value b' = Inr (Some (last vs)))"
proof (induction vs arbitrary: b)
  case Nil
  then show ?case by (simp add: buf_ok_def)
next
  case (Cons v vs)
  from add_value_ok [OF Cons.prems, of v] obtain b1 where
    b1: "add_value b v = Inr b1" "buf_ok N b1" "index b1 = (index b + 1) mod N"
      "get_display_values b1 = tl (get_display_values b) @ [v]"
      "get_current_value b1 = Inr (Some v)"
    by blast
  from Cons.IH [OF b1(2)] obtain b' where
    b': "add_values b1 vs = Inr b'" "buf_ok N b'"
      "index b' = (index b1 + int (length vs)) mod N"
      "get_display_values b' = drop (length vs) (get_display_values b1 @ vs)"
      "vs \<noteq> [] \<longrightarrow> get_current_value b' = Inr (Some (last vs))"
    by blast
  have run: "add_values b (v # vs) = Inr b'"
    by (simp add: b1(1) b'(1) bindE_def)
  have idx: "index b' = (index b + int (length (v # vs))) mod N"
    by (simp add: b'(3) b1(3) mod_add_left_eq add.assoc)
  have ne: "get_display_values b \<noteq> []"
    using display_length [OF Cons.prems] Cons.prems by (auto simp: buf_ok_def)
  then have disp: "get_display_values b' = drop (length (v # vs)) (get_display_values b @ v # vs)"
    using drop_tl_snoc [of "get_display_values b" "length vs" v vs] by (simp add: b'(4) b1(4))
  have cur: "get_current_value b' = Inr (Some (last (v # vs)))"
  proof (cases "vs = []")
    case True
    with b'(1) b1(5) show ?thesis by simp
  next
    case False
    with b'(5) show ?thesis by simp
  qed
  show ?case using run b'(2) idx disp cur by blast
qed

lemma add_value_empty_buffer: "N \<le> 0 \<Longrightarrow> add_value (DataBuffer_init N) v = Inl IndexError"
  by (simp add: add_value_def DataBuffer_init_def py_repeat_def py_set_def py_index_def bindE_def)

text \<open>
  Claim C3. In a buffer of capacity \<open>N\<close> (at least one slot), inserting \<open>N + k\<close> values with
  \<open>k \<ge> 1\<close> succeeds; afterwards \<open>get_display_values\<close> is the last \<open>N\<close> values inserted, in
  the order of insertion, \<open>get_current_value\<close> is the value inserted last, and the write
  cursor is the number of insertions modulo \<open>N\<close>, inside \<open>0 .. N - 1\<close>.
\<close>

theorem DataBuffer_wrap_around:
  assumes "1 \<le> N" and "length vs = nat N + k" and "1 \<le> k"
  shows "\<exists>b. add_values (DataBuffer_init N) vs = Inr b
           \<and> get_display_values b = drop k vs
           \<and> length (get_display_values b) = nat N
           \<and> get_current_value b = Inr (Some (last vs))
           \<and> index b = int (length vs) mod N
           \<and> 0 \<le> index b \<and> index b < N"
proof -
  from add_values_ok [OF buf_ok_init [OF assms(1)], of vs] obtain b where
    b: "add_values (DataBuffer_init N) vs = Inr b" "buf_ok N b"
      "index b = (index (DataBuffer_init N) + int (length vs)) mod N"
      "get_display_values b = drop (length vs) (get_display_values (DataBuffer_init N) @ vs)"
      "vs \<noteq> [] \<longrightarrow> get_current_value b = Inr (Some (last vs))"
    by blast
  have ne: "vs \<noteq> []" using assms by auto
  have "get_display_values b = drop k vs"
    using assms by (simp add: b(4) display_init)
  moreover have "index b = int (length vs) mod N"
    by (simp add: b(3) DataBuffer_init_def)
  ultimately show ?thesis
    using b(1,2,5) ne display_length [OF b(2)] by (auto simp: buf_ok_def)
qed

theorem DataBuffer_wrap_around_witness:
  "\<exists>b. add_values (DataBuffer_init 3) [1, 2, 3, 4, 5] = Inr b
      \<and> get_display_values b = [3, 4, 5]
      \<and> get_current_value b = Inr (Some 5)
      \<and> index b = 2"
  using DataBuffer_wrap_around [of 3 "[1, 2, 3, 4, 5]" 2] by (auto simp del: add_values.simps)

section \<open>The shoe animation\<close>

text \<open>
  Claim C8. The selector is a function of the sine value and the step flag alone, and
  for every pair it gives the text of the first row of the decision table that applies:
  the landing text when a step is detected and the sine value is at least 0.5, else the
  striding text when the value is at least 0.3, else the lifting text when it is at
  least -0.3, else the ready text. So \<open>(0.6, True)\<close> gives the landing text, although the
  striding row applies to it as well, \<open>(0.6, False)\<close> striding, \<open>(0.0, False)\<close> lifting and
  \<open>(-0.5, False)\<close> ready; the four texts are the ones of the table, and landing differs
  from striding.
\<close>

theorem shoe_state_decision_table:
  "get_shoe_state ShoeAnimation_init s b =
     Inr (if b \<and> 0.5 \<le> s then
            [128095] @ asc '' Step: ['' @ [9644, 9644, 9644] @ asc ''] '' @ [8600]
              @ asc '' Landing!''
          else if 0.3 \<le> s then
            [128095] @ asc '' Step: ['' @ [9644, 9644, 9644] @ asc ''] '' @ [8599]
              @ asc '' Striding''
          else if -0.3 \<le> s then
            [128095] @ asc '' Step: ['' @ [9644, 9644, 9644] @ asc ''] Lifting...''
          else
            [128095] @ asc '' Step: ['' @ [9644, 9644, 9644] @ asc ''] Ready'')
   \<and> get_shoe_state ShoeAnimation_init 0.6 True
       = Inr ([128095] @ asc '' Step: ['' @ [9644, 9644, 9644] @ asc ''] '' @ [8600]
                @ asc '' Landing!'')
   \<and> get_shoe_state ShoeAnimation_init 0.6 False
       = Inr ([128095] @ asc '' Step: ['' @ [9644, 9644, 9644] @ asc ''] '' @ [8599]
                @ asc '' Striding'')
   \<and> get_shoe_state ShoeAnimation_init 0 False
       = Inr ([128095] @ asc '' Step: ['' @ [9644, 9644, 9644] @ asc ''] Lifting...'')
   \<and> get_shoe_state ShoeAnimation_init (-0.5) False
       = Inr ([128095] @ asc '' Step: ['' @ [9644, 9644, 9644] @ asc ''] Ready'')
   \<and> [128095] @ asc '' Step: ['' @ [9644, 9644, 9644] @ asc ''] '' @ [8600]
         @ asc '' Landing!''
       \<noteq> [128095] @ asc '' Step: ['' @ [9644, 9644, 9644] @ asc ''] '' @ [8599]
           @ asc '' Striding''"
  by (simp add: get_shoe_state_def ShoeAnimation_init_def dict_get_def shoe_prefix_def asc_def)

section \<open>The motion generator\<close>

text \<open>
  Claim C5. The generator is a function of the tick index alone: for every integer \<open>s\<close>
  it returns \<open>(0.0, 9.8 + 2.0 * sin (1.25 * s), 0.0)\<close>, and at \<open>s = 0\<close> this is
  \<open>(0.0, 9.8, 0.0)\<close>. Being a function, it gives the same triple for the same \<open>s\<close>.
\<close>

theorem generate_walking_acceleration_formula:
  "generate_walking_acceleration s = (0, 9.8 + 2.0 * sin (1.25 * real_of_int s), 0)
   \<and> generate_walking_acceleration 0 = (0, 9.8, 0)"
  by (simp add: generate_walking_acceleration_def Y_BASELINE_def AMPLITUDE_def)

section \<open>Presets and overrides\<close>

lemma SIZE_PRESETS_choices:
  "SIZE_PRESETS ''small'' = Some \<lparr> p_bar_width = 30, p_sine_width = 40, p_sine_height = 7 \<rparr>"
  "SIZE_PRESETS ''medium'' = Some \<lparr> p_bar_width = 50, p_sine_width = 60, p_sine_height = 9 \<rparr>"
  "SIZE_PRESETS ''large'' = Some \<lparr> p_bar_width = 80, p_sine_width = 100, p_sine_height = 15 \<rparr>"
  "SIZE_PRESETS ''xl'' = Some \<lparr> p_bar_width = 120, p_sine_width = 150, p_sine_height = 20 \<rparr>"
  by (simp_all add: SIZE_PRESETS_def)

text \<open>
  Claim C9. For each of the four preset names and every combination of overrides given
  or absent, each dimension is the override when one was given and the preset's value
  otherwise. The witness is preset \<open>large\<close> with bar width 99, which gives
  \<open>(99, 100, 15)\<close>, and preset \<open>small\<close> with no override, which gives \<open>(30, 40, 7)\<close>.
\<close>

theorem preset_override_resolution:
  assumes "arg_size a \<in> {''small'', ''medium'', ''large'', ''xl''}"
  shows "\<exists>p bw sw sh.
           SIZE_PRESETS (arg_size a) = Some p
         \<and> resolve_dimensions a = Inr (bw, sw, sh)
         \<and> bw = (case arg_bar_width a of Some v \<Rightarrow> v | None \<Rightarrow> p_bar_width p)
         \<and> sw = (case arg_sine_width a of Some v \<Rightarrow> v | None \<Rightarrow> p_sine_width p)
         \<and> sh = (case arg_sine_height a of Some v \<Rightarrow> v | None \<Rightarrow> p_sine_height p)"
proof -
  from assms obtain p where p: "SIZE_PRESETS (arg_size a) = Some p"
    using SIZE_PRESETS_choices by auto
  then show ?thesis
    by (simp add: resolve_dimensions_def dict_get_def bindE_def or_preset_def)
qed

theorem preset_override_resolution_witness:
  "resolve_dimensions \<lparr> arg_port = 5554, arg_token = None, arg_size = ''large'',
       arg_bar_width = Some 99, arg_sine_width = None, arg_sine_height = None \<rparr>
     = Inr (99, 100, 15)
   \<and> resolve_dimensions \<lparr> arg_port = 5554, arg_token = None, arg_size = ''small'',
       arg_bar_width = None, arg_sine_width = None, arg_sine_height = None \<rparr>
     = Inr (30, 40, 7)"
  using preset_override_resolution [of "\<lparr> arg_port = 5554, arg_token = None, arg_size = ''large'',
       arg_bar_width = Some 99, arg_sine_width = None, arg_sine_height = None \<rparr>"]
    preset_override_resolution [of "\<lparr> arg_port = 5554, arg_token = None, arg_size = ''small'',
       arg_bar_width = None, arg_sine_width = None, arg_sine_height = None \<rparr>"]
  by (simp add: SIZE_PRESETS_choices)

section \<open>read\_until on a closed connection\<close>

lemma read_until_loop_closed:
  assumes "read_until_loop expected data s = Some y"
  shows "s = [] \<longrightarrow> contains expected data"
proof (rule read_until_loop.raw_induct [where P = "\<lambda>e d s y. s = [] \<longrightarrow> contains e d", OF _ assms])
  fix f e d s y
  assume IH: "\<And>e d s y. f e d s = Some y \<Longrightarrow> s = [] \<longrightarrow> contains e d"
    and step: "(if contains e d then Some (Inr d, s)
                else case recv s of (Inl x, s') \<Rightarrow> Some (Inl x, s')
                     | (Inr c, s') \<Rightarrow> f e (d @ c) s') = Some y"
  show "s = [] \<longrightarrow> contains e d"
  proof (intro impI, rule ccontr)
    assume s: "s = []" and n: "\<not> contains e d"
    with step have "f e d [] = Some y" by simp
    from IH [OF this] n show False by simp
  qed
qed

text \<open>Once the peer has closed, a marker that is not yet in the data never arrives.\<close>

lemma read_until_loop_diverges:
  "\<not> contains expected data \<Longrightarrow> read_until_loop expected data [] = None"
  using read_until_loop_closed [of expected data "[]"]
  by (cases "read_until_loop expected data []") auto

text \<open>A receive that exceeds the timeout ends the read with the timeout error.\<close>

lemma read_until_timeout:
  "expected \<noteq> [] \<Longrightarrow> read_until (TimedOut # rest) expected = Some (Inl TimeoutError, rest)"
  by (simp add: read_until_def read_until_loop.simps)

text \<open>A marker that is already complete is returned with everything read so far.\<close>

lemma read_until_found:
  "read_until [Chunk ''OK: hello'', Chunk ''more''] ''OK'' = Some (Inr ''OK: hello'', [Chunk ''more''])"
  by (simp add: read_until_def read_until_loop.simps)

text \<open>
  Claim C4. The peer sends the byte \<open>O\<close> and closes the connection; \<open>read_until\<close> is waiting
  for \<open>OK\<close>. The claim asks for a connection-closed failure. The loop of \<open>read_until\<close>
  instead receives the empty bytes for ever: it neither returns nor raises.
\<close>

theorem read_until_peer_closed_never_returns:
  "read_until [Chunk ''O''] ''OK'' = None"
proof -
  have "read_until [Chunk ''O''] ''OK'' = read_until_loop ''OK'' ''O'' []"
    by (simp add: read_until_def read_until_loop.simps [of _ "[]"])
  also have "\<dots> = None"
    by (rule read_until_loop_diverges) simp
  finally show ?thesis .
qed

section \<open>Construction of the graphs\<close>

lemma collect_Inr:
  "(\<And>x. x \<in> set xs \<Longrightarrow> \<exists>y. f x = Inr y \<and> P y) \<Longrightarrow>
   \<exists>ys. collect (map f xs) = Inr ys \<and> length ys = length xs \<and> (\<forall>y \<in> set ys. P y)"
proof (induction xs)
  case Nil
  then show ?case by simp
next
  case (Cons x xs)
  from Cons.prems [of x] obtain y where y: "f x = Inr y" "P y" by auto
  from Cons.IH Cons.prems obtain ys where
    ys: "collect (map f xs) = Inr ys" "length ys = length xs" "\<forall>y \<in> set ys. P y"
    by auto
  show ?case
    using y ys by (simp add: bindE_def)
qed

lemma row_label_height_1: "row_label mn mx 1 i = Inl ZeroDivisionError"
  by (simp add: row_label_def py_div_def bindE_def)

lemma row_label_ok: "h \<noteq> 1 \<Longrightarrow> \<exists>l. row_label mn mx h i = Inr l"
  by (simp add: row_label_def py_div_def bindE_def Let_def)

lemma SineWaveGraph_init_height_1: "SineWaveGraph_init w 1 r = Inl ZeroDivisionError"
  by (simp add: SineWaveGraph_init_def Let_def row_label_height_1 bindE_def)

lemma SineWaveGraph_init_ok:
  assumes "h \<noteq> 1"
  shows "\<exists>g. SineWaveGraph_init w h r = Inr g \<and> width g = w \<and> height g = h
            \<and> min_val g = fst r \<and> max_val g = snd r
            \<and> sine_buffer g = DataBuffer_init w \<and> length (row_labels g) = nat h"
proof -
  from collect_Inr [of "[0 ..< nat h]" "row_label (fst r) (snd r) h" "\<lambda>_. True"]
    row_label_ok [OF assms]
  obtain ls where "collect (map (row_label (fst r) (snd r) h) [0 ..< nat h]) = Inr ls"
    "length ls = nat h"
    by auto
  then show ?thesis
    by (simp add: SineWaveGraph_init_def Let_def bindE_def)
qed

lemma DualGraph_init_height_1: "DualGraph_init bw br sw 1 sr = Inl ZeroDivisionError"
  by (simp add: DualGraph_init_def SineWaveGraph_init_height_1 bindE_def)

lemma DualGraph_init_ok: "h \<noteq> 1 \<Longrightarrow> \<exists>g. DualGraph_init bw br sw h sr = Inr g"
  using SineWaveGraph_init_ok [of h sw sr] by (auto simp: DualGraph_init_def bindE_def)

lemma run_simulation_height_1:
  "run_simulation envs cenv bw sw 1 = Some ([], Some ZeroDivisionError)"
  by (simp add: run_simulation_def DualGraph_init_height_1)

lemma value_to_row_height_1:
  "height sg = 1 \<Longrightarrow> min_val sg \<noteq> max_val sg \<Longrightarrow> value_to_row sg v = Inr 0"
  by (simp add: value_to_row_def Let_def py_div_def bindE_def)

text \<open>
  Against claim C10 as stated, which has the value-to-row computation divide by
  \<open>height - 1\<close>: at \<open>height = 1\<close> a division would raise, and \<open>_value_to_row\<close> returns row 0.
  It multiplies by \<open>height - 1\<close>; the only division by it is in the row labels.
\<close>

theorem value_to_row_height_1_counterexample:
  "value_to_row \<lparr> width = 60, height = 1, min_val = -1, max_val = 1,
       sine_buffer = DataBuffer_init 60, row_labels = [] \<rparr> (1 / 2) = Inr 0
   \<and> value_to_row \<lparr> width = 60, height = 1, min_val = -1, max_val = 1,
       sine_buffer = DataBuffer_init 60, row_labels = [] \<rparr> (1 / 2) \<noteq> Inl ZeroDivisionError"
  by (simp add: value_to_row_def Let_def py_div_def bindE_def)

text \<open>
  Claim C10, amended. Building a sine-wave graph (alone or inside the dual graph) with
  \<open>height = 1\<close> raises \<open>ZeroDivisionError\<close>, from the row labels, which divide by
  \<open>height - 1\<close>; every height of 2 or more builds, with one label per row. The command
  line accepts \<open>--sine-height 1\<close>, and \<open>run_simulation\<close> then ends with that error before
  the first call on the channel.
\<close>

theorem sine_graph_height_precondition:
  assumes "2 \<le> h"
  shows "SineWaveGraph_init w 1 r = Inl ZeroDivisionError
       \<and> DualGraph_init bw br w 1 r = Inl ZeroDivisionError
       \<and> (\<exists>g. SineWaveGraph_init w h r = Inr g \<and> height g = h \<and> length (row_labels g) = nat h)
       \<and> (\<exists>d. DualGraph_init bw br w h r = Inr d)
       \<and> resolve_dimensions \<lparr> arg_port = 5554, arg_token = None, arg_size = ''medium'',
            arg_bar_width = None, arg_sine_width = None, arg_sine_height = Some 1 \<rparr>
           = Inr (50, 60, 1)
       \<and> run_simulation envs cenv 50 60 1 = Some ([], Some ZeroDivisionError)"
proof -
  from assms have h: "h \<noteq> 1" by simp
  have "resolve_dimensions \<lparr> arg_port = 5554, arg_token = None, arg_size = ''medium'',
            arg_bar_width = None, arg_sine_width = None, arg_sine_height = Some 1 \<rparr>
           = Inr (50, 60, 1)"
    by (simp add: resolve_dimensions_def SIZE_PRESETS_choices dict_get_def bindE_def or_preset_def)
  then show ?thesis
    using SineWaveGraph_init_ok [OF h, of w r] DualGraph_init_ok [OF h, of bw br w r]
    by (auto simp: SineWaveGraph_init_height_1 DualGraph_init_height_1 run_simulation_height_1)
qed

theorem sine_graph_height_precondition_witness:
  "SineWaveGraph_init 60 1 (-1, 1) = Inl ZeroDivisionError
   \<and> (\<exists>g. SineWaveGraph_init 60 2 (-1, 1) = Inr g \<and> height g = 2 \<and> length (row_labels g) = 2)"
proof -
  have "(2::int) \<le> 2" by simp
  from sine_graph_height_precondition [OF this, of 60 "(-1, 1)" 50 "(7.8, 11.8)" "[]"
      "\<lparr> final_write_reply = None, final_read_reply = None, close_reply = None \<rparr>"]
  show ?thesis by auto
qed

section \<open>Text without newlines\<close>

lemma no_nl_simps [simp]:
  "no_nl []" "no_nl (x # xs) = (x \<noteq> 10 \<and> no_nl xs)" "no_nl (xs @ ys) = (no_nl xs \<and> no_nl ys)"
  by (auto simp: no_nl_def)

lemma of_char_newline: "(of_char c = (10::nat)) = (c = CHR 0x0A)"
proof -
  have "(of_char c = (of_char (CHR 0x0A) :: nat)) = (c = CHR 0x0A)"
    by (rule of_char_eq_iff)
  then show ?thesis by simp
qed

lemma no_nl_asc: "no_nl (asc s) = (CHR 0x0A \<notin> set s)"
  by (induction s) (auto simp: asc_def of_char_newline)

lemma digit_char_mem: "d < 10 \<Longrightarrow> digit_char d \<in> set ''0123456789''"
  unfolding digit_char_def by (rule nth_mem) simp

lemma digit_char_not_nl: "d < 10 \<Longrightarrow> digit_char d \<noteq> CHR 0x0A"
  using digit_char_mem [of d] by auto

lemma digits_of_not_nl: "CHR 0x0A \<notin> set (digits_of n)"
proof (induction n rule: digits_of.induct)
  case (1 n)
  show ?case
  proof (cases "n < 10")
    case True
    then show ?thesis
      using digit_char_not_nl [of n] by (subst digits_of.simps) auto
  next
    case False
    have "n mod 10 < 10" by simp
    from digit_char_not_nl [OF this] 1 False show ?thesis
      by (subst digits_of.simps) auto
  qed
qed

lemma fixed2_not_nl: "CHR 0x0A \<notin> set (fixed2 x)"
proof -
  define n where "n = nat (py_round (\<bar>x\<bar> * 100))"
  have "n mod 100 div 10 < 10" by (simp add: div_less_iff_less_mult)
  then have a: "CHR 0x0A \<noteq> digit_char (n mod 100 div 10)"
    using digit_char_not_nl by metis
  have "n mod 10 < 10" by simp
  then have b: "CHR 0x0A \<noteq> digit_char (n mod 10)"
    using digit_char_not_nl by metis
  show ?thesis
    using a b by (simp add: fixed2_def Let_def digits_of_not_nl n_def)
qed

lemma fmt_2f_not_nl: "CHR 0x0A \<notin> set (fmt_2f x)"
  by (simp add: fmt_2f_def fixed2_not_nl)

lemma fmt_5_2f_not_nl: "CHR 0x0A \<notin> set (fmt_5_2f x)"
  by (simp add: fmt_5_2f_def pad_left_def fmt_2f_not_nl)

lemma fmt_plus_2f_not_nl: "CHR 0x0A \<notin> set (fmt_plus_2f x)"
  by (simp add: fmt_plus_2f_def fixed2_not_nl)

lemma str_int_not_nl: "CHR 0x0A \<notin> set (str_int i)"
  by (simp add: str_int_def digits_of_not_nl)

lemma no_nl_CLEAR: "no_nl CLEAR"
  by (simp add: CLEAR_def no_nl_asc)

lemma no_nl_replicate: "c \<noteq> 10 \<Longrightarrow> no_nl (replicate n c)"
  by (simp add: no_nl_def)

lemma no_nl_update: "no_nl xs \<Longrightarrow> c \<noteq> 10 \<Longrightarrow> no_nl (xs[i := c])"
  using set_update_subset_insert [of xs i c] by (auto simp: no_nl_def)

lemma trail_char_not_nl: "trail_char age \<noteq> 10"
  by (simp add: trail_char_def)

lemma get_shoe_state_ok:
  "\<exists>t. get_shoe_state ShoeAnimation_init s b = Inr t \<and> no_nl t"
  by (simp add: get_shoe_state_def ShoeAnimation_init_def dict_get_def shoe_prefix_def no_nl_asc)

lemma get_landing_line_no_nl: "no_nl (get_landing_line ShoeAnimation_init b)"
  by (simp add: get_landing_line_def ShoeAnimation_init_def no_nl_asc)

section \<open>Counting lines\<close>

lemma count_lines_append: "count_lines (xs @ ys) = count_lines xs + count_lines ys"
  by (simp add: count_lines_def)

lemma count_lines_no_nl: "no_nl s \<Longrightarrow> count_lines s = 0"
  by (simp add: count_lines_def no_nl_def)

lemma count_lines_Nil: "count_lines [] = 0"
  by (simp add: count_lines_def)

lemma count_lines_Cons: "count_lines (x # xs) = (if x = 10 then 1 else 0) + count_lines xs"
  by (simp add: count_lines_def)

lemma count_lines_rows:
  "list_all no_nl rows \<Longrightarrow>
   count_lines (concat (map (\<lambda>row. CLEAR @ row @ [10]) rows)) = length rows"
  by (induction rows)
     (simp_all add: count_lines_append count_lines_Cons count_lines_Nil count_lines_no_nl
        no_nl_CLEAR)

lemma count_lines_frame:
  assumes "no_nl up" "no_nl bar" "no_nl shoe" "no_nl landing" "list_all no_nl rows"
  shows "count_lines (frame up bar shoe landing rows) = 4 + length rows"
  using assms
  by (simp add: frame_def count_lines_append count_lines_Cons count_lines_no_nl no_nl_CLEAR
      count_lines_rows)

lemma print_rows_concat:
  "print_rows rows out = out @ concat (map (\<lambda>row. CLEAR @ row @ [10]) rows)"
  unfolding print_rows_def
  by (induction rows arbitrary: out) (simp_all add: print_line_def print_noend_def)

section \<open>Indexing inside the list\<close>

lemma py_get_in: "0 \<le> j \<Longrightarrow> j < int (length xs) \<Longrightarrow> py_get xs j = Inr (xs ! nat j)"
  by (simp add: py_get_def py_index_def)

lemma py_set_in: "0 \<le> j \<Longrightarrow> j < int (length xs) \<Longrightarrow> py_set xs j v = Inr (xs[nat j := v])"
  by (simp add: py_set_def py_index_def)

lemma list_all_update: "list_all P xs \<Longrightarrow> P x \<Longrightarrow> list_all P (xs[i := x])"
  using set_update_subset_insert [of xs i x] by (auto simp: list_all_iff)

section \<open>Rendering the sine wave\<close>

lemma value_to_row_ok: "min_val sg \<noteq> max_val sg \<Longrightarrow> \<exists>r. value_to_row sg v = Inr r"
  by (simp add: value_to_row_def Let_def py_div_def bindE_def)

lemma plot_point_ok:
  assumes h: "height sg = h" and labels: "length (row_labels sg) = nat h"
    and range: "min_val sg \<noteq> max_val sg" and len: "length rows = nat h"
  shows "\<exists>rows'. plot_point sg n rows p = Inr rows' \<and> length rows' = nat h
           \<and> (list_all no_nl rows \<longrightarrow> list_all no_nl rows')"
proof -
  from value_to_row_ok [OF range] obtain r where r: "value_to_row sg (snd p) = Inr r" by blast
  define k where "k = py_round r"
  show ?thesis
  proof (cases "0 \<le> k \<and> k < h")
    case False
    then show ?thesis
      using len by (auto simp: plot_point_def Let_def r bindE_def k_def h)
  next
    case True
    then have l0: "py_get (row_labels sg) 0 = Inr (row_labels sg ! 0)"
      using labels py_get_in [of 0 "row_labels sg"] by simp
    from True have row: "py_get rows k = Inr (rows ! nat k)"
      using len by (intro py_get_in) auto
    define pos where "pos = int (length (row_labels sg ! 0)) + int (fst p)"
    define ch where "ch = trail_char (int n - int (fst p) - 1)"
    show ?thesis
    proof (cases "pos < int (length (rows ! nat k))")
      case False
      then show ?thesis
        using True len
        by (simp add: plot_point_def Let_def r bindE_def k_def [symmetric] h l0 row
            pos_def [symmetric])
    next
      case inside: True
      have "0 \<le> pos" by (simp add: pos_def)
      from py_set_in [OF this inside]
      have s1: "py_set (rows ! nat k) pos ch = Inr ((rows ! nat k)[nat pos := ch])" .
      have s2: "py_set rows k ((rows ! nat k)[nat pos := ch])
                  = Inr (rows[nat k := (rows ! nat k)[nat pos := ch]])"
        using True len by (intro py_set_in) auto
      have pp: "plot_point sg n rows p = Inr (rows[nat k := (rows ! nat k)[nat pos := ch]])"
        using True inside
        by (simp add: plot_point_def Let_def r bindE_def k_def [symmetric] h l0 row
            pos_def [symmetric] ch_def [symmetric] s1 s2)
      have "list_all no_nl rows \<longrightarrow> list_all no_nl (rows[nat k := (rows ! nat k)[nat pos := ch]])"
      proof
        assume a: "list_all no_nl rows"
        have "nat k < length rows" using True len by auto
        with a have "no_nl (rows ! nat k)" by (simp add: list_all_length)
        then have "no_nl ((rows ! nat k)[nat pos := ch])"
          by (rule no_nl_update) (simp add: ch_def trail_char_not_nl)
        with a show "list_all no_nl (rows[nat k := (rows ! nat k)[nat pos := ch]])"
          by (rule list_all_update)
      qed
      with pp len show ?thesis by simp
    qed
  qed
qed

lemma plot_points_ok:
  assumes h: "height sg = h" and labels: "length (row_labels sg) = nat h"
    and range: "min_val sg \<noteq> max_val sg"
  shows "length rows = nat h \<Longrightarrow>
         \<exists>rows'. plot_points sg n rows ps = Inr rows' \<and> length rows' = nat h
           \<and> (list_all no_nl rows \<longrightarrow> list_all no_nl rows')"
proof (induction ps arbitrary: rows)
  case Nil
  then show ?case by simp
next
  case (Cons p ps)
  from plot_point_ok [OF h labels range Cons.prems, of n p] obtain rows1 where
    r1: "plot_point sg n rows p = Inr rows1" "length rows1 = nat h"
      "list_all no_nl rows \<longrightarrow> list_all no_nl rows1"
    by blast
  from Cons.IH [OF r1(2)] obtain rows' where
    r': "plot_points sg n rows1 ps = Inr rows'" "length rows' = nat h"
      "list_all no_nl rows1 \<longrightarrow> list_all no_nl rows'"
    by blast
  show ?case
    using r1 r' by (simp add: bindE_def)
qed

lemma get_current_value_ok: "buf_ok w b \<Longrightarrow> \<exists>cv. get_current_value b = Inr cv"
proof (cases "has_data b")
  case False
  then show ?thesis by (simp add: get_current_value_def)
next
  case True
  assume ok: "buf_ok w b"
  then have w: "0 < w" and sz: "size b = w" and len: "length (buffer b) = nat w"
    by (auto simp: buf_ok_def)
  have "0 \<le> (index b - 1) mod w" "(index b - 1) mod w < int (length (buffer b))"
    using w len by simp_all
  from py_get_in [OF this] show ?thesis
    using True w by (simp add: get_current_value_def py_mod_def sz bindE_def)
qed

lemma current_indicator_ok:
  assumes h: "height sg = h" and range: "min_val sg \<noteq> max_val sg"
    and buf: "buf_ok w (sine_buffer sg)" and len: "length rows = nat h"
  shows "\<exists>rows'. current_indicator sg rows = Inr rows' \<and> length rows' = nat h
           \<and> (list_all no_nl rows \<longrightarrow> list_all no_nl rows')"
proof -
  from get_current_value_ok [OF buf] obtain cv where
    cv: "get_current_value (sine_buffer sg) = Inr cv" by blast
  show ?thesis
  proof (cases cv)
    case None
    then show ?thesis using len by (simp add: current_indicator_def cv bindE_def)
  next
    case (Some v)
    from value_to_row_ok [OF range] obtain r where r: "value_to_row sg v = Inr r" by blast
    define k where "k = py_round r"
    define suffix where "suffix = asc '' '' @ [8592] @ asc ('' Current: '' @ fmt_plus_2f v)"
    have sfx: "no_nl suffix"
      by (simp add: suffix_def no_nl_asc fmt_plus_2f_not_nl)
    show ?thesis
    proof (cases "0 \<le> k \<and> k < h")
      case False
      then show ?thesis
        using len by (auto simp: current_indicator_def cv Some bindE_def r Let_def k_def h)
    next
      case True
      then have row: "py_get rows k = Inr (rows ! nat k)"
        using len by (intro py_get_in) auto
      have s: "py_set rows k (rows ! nat k @ suffix) = Inr (rows[nat k := rows ! nat k @ suffix])"
        using True len by (intro py_set_in) auto
      have ci: "current_indicator sg rows = Inr (rows[nat k := rows ! nat k @ suffix])"
        using True s
        by (simp add: current_indicator_def cv Some bindE_def r Let_def k_def [symmetric] h row
            suffix_def)
      have "list_all no_nl rows \<longrightarrow> list_all no_nl (rows[nat k := rows ! nat k @ suffix])"
      proof
        assume a: "list_all no_nl rows"
        have "nat k < length rows" using True len by auto
        with a have "no_nl (rows ! nat k)" by (simp add: list_all_length)
        with sfx have "no_nl (rows ! nat k @ suffix)" by simp
        with a show "list_all no_nl (rows[nat k := rows ! nat k @ suffix])"
          by (rule list_all_update)
      qed
      with ci len show ?thesis by simp
    qed
  qed
qed

lemma sine_rows_ok:
  assumes h: "height sg = h" and labels: "length (row_labels sg) = nat h"
    and nl: "list_all no_nl (row_labels sg)" and buf: "buf_ok w (sine_buffer sg)"
    and range: "min_val sg \<noteq> max_val sg"
  shows "\<exists>rows. sine_rows sg = Inr rows \<and> length rows = nat h \<and> list_all no_nl rows"
proof -
  define rows0 where "rows0 = map (\<lambda>label. label @ py_repeat 32 (width sg)) (row_labels sg)"
  have len0: "length rows0 = nat h" by (simp add: rows0_def labels)
  have nl0: "list_all no_nl rows0"
    using nl by (simp add: rows0_def list_all_iff py_repeat_def no_nl_replicate)
  define vals where "vals = get_display_values (sine_buffer sg)"
  have "\<exists>rows1. (if has_data (sine_buffer sg)
                 then plot_points sg (length vals) rows0 (zip [0 ..< length vals] vals)
                 else Inr rows0) = Inr rows1 \<and> length rows1 = nat h \<and> list_all no_nl rows1"
    using plot_points_ok [OF h labels range len0] len0 nl0 by (cases "has_data (sine_buffer sg)") auto
  then obtain rows1 where r1: "(if has_data (sine_buffer sg)
                 then plot_points sg (length vals) rows0 (zip [0 ..< length vals] vals)
                 else Inr rows0) = Inr rows1" "length rows1 = nat h" "list_all no_nl rows1"
    by blast
  from current_indicator_ok [OF h range buf r1(2)] r1(3) obtain rows2 where
    r2: "current_indicator sg rows1 = Inr rows2" "length rows2 = nat h" "list_all no_nl rows2"
    by blast
  have "sine_rows sg = Inr rows2"
    using r1(1) r2(1)
    by (auto simp: sine_rows_def Let_def vals_def [symmetric] rows0_def [symmetric] bindE_def
        split: if_splits)
  with r2 show ?thesis by auto
qed

section \<open>One call of plot\<close>

lemma no_nl_cursor_up: "no_nl (cursor_up g)"
  by (simp add: cursor_up_def no_nl_asc str_int_not_nl)

lemma no_nl_bar_line: "no_nl (bar_line bg v)"
  by (simp add: bar_line_def no_nl_asc fmt_5_2f_not_nl)

text \<open>
  What a call of \<open>plot\<close> does on a well-formed graph: it adds the sine value to the buffer,
  and writes one frame made of the cursor movement, the bar line for the acceleration,
  the text that \<open>get_shoe_state\<close> selects, the landing line of \<open>get_landing_line\<close>, the blank
  line and the rows of the buffer as updated, in this order.
\<close>

lemma plot_frame:
  assumes ok: "dg_ok w h g"
  shows "\<exists>buf shoe rows.
           add_value (sine_buffer (sine_graph g)) s = Inr buf
         \<and> get_shoe_state ShoeAnimation_init s b = Inr shoe
         \<and> sine_rows ((sine_graph g) \<lparr> sine_buffer := buf \<rparr>) = Inr rows
         \<and> plot g a s b out
             = Inr (g \<lparr> sine_graph := (sine_graph g) \<lparr> sine_buffer := buf \<rparr>,
                       first_render := False \<rparr>,
                    out @ frame (cursor_up g) (bar_line (bar_graph g) a) shoe
                            (get_landing_line ShoeAnimation_init b) rows)
         \<and> dg_ok w h (g \<lparr> sine_graph := (sine_graph g) \<lparr> sine_buffer := buf \<rparr>,
                          first_render := False \<rparr>)
         \<and> length rows = nat h \<and> no_nl shoe \<and> list_all no_nl rows"
proof -
  from ok have buf: "buf_ok w (sine_buffer (sine_graph g))"
    and bar_range: "bar_min_val (bar_graph g) \<noteq> bar_max_val (bar_graph g)"
    and shoe_init: "shoe_animation g = ShoeAnimation_init"
    by (simp_all add: dg_ok_def)
  from add_value_ok [OF buf, of s] obtain buf' where
    b': "add_value (sine_buffer (sine_graph g)) s = Inr buf'" "buf_ok w buf'"
    by blast
  define sg1 where "sg1 = (sine_graph g) \<lparr> sine_buffer := buf' \<rparr>"
  define g1 where "g1 = g \<lparr> sine_graph := sg1 \<rparr>"
  have ok1: "dg_ok w h g1"
    using ok b'(2) by (simp add: dg_ok_def g1_def sg1_def)
  have ok': "dg_ok w h (g1 \<lparr> first_render := False \<rparr>)"
    using ok1 by (simp add: dg_ok_def)
  have up: "(if \<not> first_render g1
             then print_noend ([27] @ asc (''['' @ str_int (total_lines g1) @ ''A'')) out
             else out) = out @ cursor_up g"
    by (simp add: cursor_up_def g1_def print_noend_def)
  define clamped where
    "clamped = max (bar_min_val (bar_graph g1)) (min a (bar_max_val (bar_graph g1)))"
  define normalized where
    "normalized = (clamped - bar_min_val (bar_graph g1))
                    / (bar_max_val (bar_graph g1) - bar_min_val (bar_graph g1))"
  have d: "py_div (clamped - bar_min_val (bar_graph g1))
             (bar_max_val (bar_graph g1) - bar_min_val (bar_graph g1)) = Inr normalized"
    using bar_range by (simp add: py_div_def normalized_def g1_def)
  have bar: "asc (''Accel: '' @ fmt_5_2f a @ '' | ''
                 @ py_repeat CHR ''#'' (py_trunc (normalized * of_int (bar_width (bar_graph g1)))))
             = bar_line (bar_graph g) a"
    by (simp add: bar_line_def py_repeat_def normalized_def clamped_def g1_def)
  from get_shoe_state_ok [of s b] obtain shoe where
    shoe: "get_shoe_state ShoeAnimation_init s b = Inr shoe" "no_nl shoe"
    by auto
  have shoe1: "get_shoe_state (shoe_animation g1) s b = Inr shoe"
    by (simp add: g1_def shoe_init shoe(1))
  have landing: "get_landing_line (shoe_animation g1) b = get_landing_line ShoeAnimation_init b"
    by (simp add: g1_def shoe_init)
  from ok1 have "height sg1 = h" "length (row_labels sg1) = nat h"
    "list_all no_nl (row_labels sg1)" "buf_ok w (sine_buffer sg1)" "min_val sg1 \<noteq> max_val sg1"
    by (simp_all add: dg_ok_def g1_def)
  from sine_rows_ok [OF this] obtain rows where
    rows: "sine_rows sg1 = Inr rows" "length rows = nat h" "list_all no_nl rows"
    by blast
  have sg: "sine_graph g1 = sg1" by (simp add: g1_def)
  define out8 where
    "out8 = out @ cursor_up g @ CLEAR @ bar_line (bar_graph g) a @ [10] @ CLEAR @ shoe @ [10]
              @ CLEAR @ get_landing_line ShoeAnimation_init b @ [10] @ CLEAR @ [10]"
  have o8: "print_line CLEAR (print_line (get_landing_line ShoeAnimation_init b)
              (print_noend CLEAR (print_line shoe
                (print_noend CLEAR (print_line (bar_line (bar_graph g) a)
                  (print_noend CLEAR (out @ cursor_up g))))))) = out8"
    by (simp add: out8_def print_line_def print_noend_def)
  have r: "render_sine_wave g1 out8
             = Inr (out8 @ concat (map (\<lambda>row. CLEAR @ row @ [10]) rows))"
    by (simp add: render_sine_wave_def sg rows(1) bindE_def print_rows_concat)
  have "plot g a s b out = Inr (g1 \<lparr> first_render := False \<rparr>,
                               out8 @ concat (map (\<lambda>row. CLEAR @ row @ [10]) rows))"
    unfolding plot_def b'(1) bindE_def sum.case Let_def sg1_def [symmetric] g1_def [symmetric]
      up clamped_def [symmetric] d bar shoe1 landing o8 r
    by (rule refl)
  also have "out8 @ concat (map (\<lambda>row. CLEAR @ row @ [10]) rows)
             = out @ frame (cursor_up g) (bar_line (bar_graph g) a) shoe
                       (get_landing_line ShoeAnimation_init b) rows"
    by (simp add: out8_def frame_def)
  finally have p: "plot g a s b out
             = Inr (g1 \<lparr> first_render := False \<rparr>,
                    out @ frame (cursor_up g) (bar_line (bar_graph g) a) shoe
                            (get_landing_line ShoeAnimation_init b) rows)" .
  show ?thesis
    using b'(1) shoe p ok' rows unfolding g1_def sg1_def by blast
qed

lemma plot_ok:
  assumes ok: "dg_ok w h g"
  shows "\<exists>g' up bar shoe landing rows.
           plot g a s b out = Inr (g', out @ frame up bar shoe landing rows)
         \<and> dg_ok w h g' \<and> length rows = nat h
         \<and> no_nl up \<and> no_nl bar \<and> no_nl shoe \<and> no_nl landing \<and> list_all no_nl rows"
  using plot_frame [OF ok, of s b a out] no_nl_cursor_up [of g]
    no_nl_bar_line [of "bar_graph g" a] get_landing_line_no_nl [of b]
  by blast

lemma plot_lines:
  assumes "dg_ok w h g"
  shows "\<exists>g' out'. plot g a s b out = Inr (g', out') \<and> dg_ok w h g'
           \<and> count_lines out' = count_lines out + (4 + nat h)"
proof -
  from plot_ok [OF assms, of a s b out] obtain g' up bar shoe landing rows where
    p: "plot g a s b out = Inr (g', out @ frame up bar shoe landing rows)"
      "dg_ok w h g'" "length rows = nat h"
      "no_nl up" "no_nl bar" "no_nl shoe" "no_nl landing" "list_all no_nl rows"
    by blast
  have "count_lines (out @ frame up bar shoe landing rows) = count_lines out + (4 + nat h)"
    using count_lines_frame [OF p(4-8)] p(3) by (simp add: count_lines_append)
  with p(1,2) show ?thesis by blast
qed

lemma plot_run_lines:
  "dg_ok w h g \<Longrightarrow> plot_run g out xs = Inr (replicate (length xs) (4 + nat h))"
proof (induction xs arbitrary: g out)
  case Nil
  then show ?case by simp
next
  case (Cons x xs)
  obtain a s b where x: "x = (a, s, b)" by (cases x)
  from plot_lines [OF Cons.prems, of a s b out] obtain g' out' where
    p: "plot g a s b out = Inr (g', out')" "dg_ok w h g'"
      "count_lines out' = count_lines out + (4 + nat h)"
    by blast
  from Cons.IH [OF p(2), of out'] p(1,3) show ?case
    by (simp add: x bindE_def)
qed

section \<open>The graph as built\<close>

lemma row_label_no_nl: "h \<noteq> 1 \<Longrightarrow> \<exists>l. row_label mn mx h i = Inr l \<and> no_nl l"
  by (simp add: row_label_def py_div_def bindE_def Let_def no_nl_asc fmt_5_2f_not_nl)

lemma DualGraph_init_dg_ok:
  assumes h: "h \<noteq> 1" and w: "1 \<le> w" and br: "fst br \<noteq> snd br" and sr: "fst sr \<noteq> snd sr"
  shows "\<exists>g. DualGraph_init bw br w h sr = Inr g \<and> dg_ok w h g \<and> total_lines g = 4 + h"
proof -
  from collect_Inr [of "[0 ..< nat h]" "row_label (fst sr) (snd sr) h" no_nl]
    row_label_no_nl [OF h]
  obtain ls where ls: "collect (map (row_label (fst sr) (snd sr) h) [0 ..< nat h]) = Inr ls"
    "length ls = nat h" "\<forall>l \<in> set ls. no_nl l"
    by auto
  define g where
    "g = \<lparr> bar_graph = BarGraph_init bw br ''Accel'',
           sine_graph = \<lparr> width = w, height = h, min_val = fst sr, max_val = snd sr,
                          sine_buffer = DataBuffer_init w, row_labels = ls \<rparr>,
           shoe_animation = ShoeAnimation_init, first_render = True, total_lines = 4 + h \<rparr>"
  have i: "DualGraph_init bw br w h sr = Inr g"
    by (simp add: DualGraph_init_def SineWaveGraph_init_def Let_def ls(1) bindE_def g_def)
  have "dg_ok w h g"
    using ls(2,3) buf_ok_init [OF w] br sr
    by (simp add: dg_ok_def g_def list_all_iff BarGraph_init_def)
  with i show ?thesis by (auto simp: g_def)
qed

lemma plot_session_lines:
  assumes "h \<noteq> 1" "1 \<le> w" "fst br \<noteq> snd br" "fst sr \<noteq> snd sr"
  shows "plot_session bw br w h sr xs = Inr (4 + h, replicate (length xs) (4 + nat h))"
proof -
  from DualGraph_init_dg_ok [OF assms, of bw] obtain g where
    g: "DualGraph_init bw br w h sr = Inr g" "dg_ok w h g" "total_lines g = 4 + h"
    by blast
  show ?thesis
    by (simp add: plot_session_def g(1,3) plot_run_lines [OF g(2)] bindE_def)
qed

text \<open>A buffer without a slot: the first call of \<open>plot\<close> raises before it prints.\<close>

lemma plot_empty_buffer:
  "sine_buffer (sine_graph g) = DataBuffer_init w \<Longrightarrow> w \<le> 0 \<Longrightarrow>
   plot g a s b out = Inl IndexError"
  by (simp add: plot_def add_value_empty_buffer bindE_def)

text \<open>
  Against claim C1 as stated, for any configured height: with \<open>--sine-height -1\<close> the
  graph is built, \<open>total_lines\<close> is \<open>4 + (-1) = 3\<close>, and each call of \<open>plot\<close> emits 4 lines,
  since there is no row to print.
\<close>

theorem plot_line_count_negative_height_counterexample:
  "plot_session 50 (7.8, 11.8) 60 (-1) (-1, 1) [(9.8, 0, False), (11.7, 0.9, False)]
     = Inr (3, [4, 4])"
  using plot_session_lines [of "-1" 60 "(7.8, 11.8)" "(-1, 1)" 50 "[(9.8, 0, False), (11.7, 0.9, False)]"]
  by (simp add: numeral_2_eq_2)

text \<open>
  Claim C1, amended. For a sine height \<open>h \<ge> 0\<close> other than 1, a sine width of at least 1
  and ranges that are not a single point, the dual graph is built with
  \<open>total_lines = 4 + h\<close>, and in a run of any number of calls of \<open>plot\<close>, with any
  arguments, every call emits exactly \<open>4 + h\<close> lines. Each call, from any state that the
  constructor or an earlier call leaves, adds the sine value to the buffer and appends
  one frame, which is, in this order: the cursor movement (absent on the first call),
  the bar line of the acceleration, the shoe-state line that \<open>get_shoe_state\<close> selects for
  the sine value and the step flag, the landing line of \<open>get_landing_line\<close> for the flag,
  the blank line, and the \<open>h\<close> rows of the sine wave over the buffer as updated.
\<close>

theorem plot_line_count:
  assumes "0 \<le> h" and "h \<noteq> 1" and "1 \<le> w"
    and "fst bar_range \<noteq> snd bar_range" and "fst sine_range \<noteq> snd sine_range"
  shows "(\<exists>g. DualGraph_init bw bar_range w h sine_range = Inr g \<and> dg_ok w h g
             \<and> total_lines g = 4 + h)
       \<and> plot_session bw bar_range w h sine_range xs
           = Inr (4 + h, replicate (length xs) (nat (4 + h)))
       \<and> (\<forall>g out a s b. dg_ok w h g \<longrightarrow>
            (\<exists>buf shoe rows.
               add_value (sine_buffer (sine_graph g)) s = Inr buf
             \<and> get_shoe_state ShoeAnimation_init s b = Inr shoe
             \<and> sine_rows ((sine_graph g) \<lparr> sine_buffer := buf \<rparr>) = Inr rows
             \<and> plot g a s b out
                 = Inr (g \<lparr> sine_graph := (sine_graph g) \<lparr> sine_buffer := buf \<rparr>,
                           first_render := False \<rparr>,
                        out @ frame (cursor_up g) (bar_line (bar_graph g) a) shoe
                                (get_landing_line ShoeAnimation_init b) rows)
             \<and> dg_ok w h (g \<lparr> sine_graph := (sine_graph g) \<lparr> sine_buffer := buf \<rparr>,
                              first_render := False \<rparr>)
             \<and> int (length rows) = h
             \<and> int (count_lines (frame (cursor_up g) (bar_line (bar_graph g) a) shoe
                                    (get_landing_line ShoeAnimation_init b) rows)) = 4 + h))"
proof -
  have n: "nat (4 + h) = 4 + nat h" using assms(1) by simp
  have 0: "\<exists>g. DualGraph_init bw bar_range w h sine_range = Inr g \<and> dg_ok w h g
             \<and> total_lines g = 4 + h"
    by (rule DualGraph_init_dg_ok [OF assms(2-5)])
  have 1: "plot_session bw bar_range w h sine_range xs
           = Inr (4 + h, replicate (length xs) (nat (4 + h)))"
    using plot_session_lines [OF assms(2-5)] by (simp add: n)
  have 2: "\<exists>buf shoe rows.
               add_value (sine_buffer (sine_graph g)) s = Inr buf
             \<and> get_shoe_state ShoeAnimation_init s b = Inr shoe
             \<and> sine_rows ((sine_graph g) \<lparr> sine_buffer := buf \<rparr>) = Inr rows
             \<and> plot g a s b out
                 = Inr (g \<lparr> sine_graph := (sine_graph g) \<lparr> sine_buffer := buf \<rparr>,
                           first_render := False \<rparr>,
                        out @ frame (cursor_up g) (bar_line (bar_graph g) a) shoe
                                (get_landing_line ShoeAnimation_init b) rows)
             \<and> dg_ok w h (g \<lparr> sine_graph := (sine_graph g) \<lparr> sine_buffer := buf \<rparr>,
                              first_render := False \<rparr>)
             \<and> int (length rows) = h
             \<and> int (count_lines (frame (cursor_up g) (bar_line (bar_graph g) a) shoe
                                    (get_landing_line ShoeAnimation_init b) rows)) = 4 + h"
    if ok: "dg_ok w h g" for g out a s b
  proof -
    from plot_frame [OF ok, of s b a out] obtain buf shoe rows where
      p: "add_value (sine_buffer (sine_graph g)) s = Inr buf"
        "get_shoe_state ShoeAnimation_init s b = Inr shoe"
        "sine_rows ((sine_graph g) \<lparr> sine_buffer := buf \<rparr>) = Inr rows"
        "plot g a s b out
           = Inr (g \<lparr> sine_graph := (sine_graph g) \<lparr> sine_buffer := buf \<rparr>,
                     first_render := False \<rparr>,
                  out @ frame (cursor_up g) (bar_line (bar_graph g) a) shoe
                          (get_landing_line ShoeAnimation_init b) rows)"
        "dg_ok w h (g \<lparr> sine_graph := (sine_graph g) \<lparr> sine_buffer := buf \<rparr>,
                        first_render := False \<rparr>)"
        "length rows = nat h" "no_nl shoe" "list_all no_nl rows"
      by blast
    have "int (count_lines (frame (cursor_up g) (bar_line (bar_graph g) a) shoe
                              (get_landing_line ShoeAnimation_init b) rows)) = 4 + h"
      using count_lines_frame [OF no_nl_cursor_up no_nl_bar_line p(7) get_landing_line_no_nl p(8)]
        p(6) assms(1)
      by simp
    moreover have "int (length rows) = h" using p(6) assms(1) by simp
    ultimately show ?thesis using p(1-5) by blast
  qed
  from 0 1 2 show ?thesis by blast
qed

theorem plot_line_count_witness:
  "plot_session 50 (7.8, 11.8) 60 9 (-1, 1) [(9.8, 0, False), (11.7, 0.9, False), (11.0, 0.6, True)]
     = Inr (13, [13, 13, 13])
   \<and> (\<exists>g buf shoe rows.
         DualGraph_init 50 (7.8, 11.8) 60 9 (-1, 1) = Inr g
       \<and> add_value (sine_buffer (sine_graph g)) 0.6 = Inr buf
       \<and> get_shoe_state ShoeAnimation_init 0.6 True = Inr shoe
       \<and> sine_rows ((sine_graph g) \<lparr> sine_buffer := buf \<rparr>) = Inr rows
       \<and> plot g 11 0.6 True []
           = Inr (g \<lparr> sine_graph := (sine_graph g) \<lparr> sine_buffer := buf \<rparr>,
                     first_render := False \<rparr>,
                  frame (cursor_up g) (bar_line (bar_graph g) 11) shoe
                    (get_landing_line ShoeAnimation_init True) rows)
       \<and> length rows = 9
       \<and> count_lines (frame (cursor_up g) (bar_line (bar_graph g) 11) shoe
                        (get_landing_line ShoeAnimation_init True) rows) = 13)"
proof -
  have h: "(0::int) \<le> 9" "(9::int) \<noteq> 1" "(1::int) \<le> 60"
    "fst (7.8::real, 11.8::real) \<noteq> snd (7.8::real, 11.8::real)"
    "fst (-1::real, 1::real) \<noteq> snd (-1::real, 1::real)"
    by simp_all
  note t = plot_line_count [OF h, of 50 "[(9.8, 0, False), (11.7, 0.9, False), (11.0, 0.6, True)]"]
  from t obtain g where g: "DualGraph_init 50 (7.8, 11.8) 60 9 (-1, 1) = Inr g" "dg_ok 60 9 g"
    by blast
  from t g(2) obtain buf shoe rows where
    "add_value (sine_buffer (sine_graph g)) 0.6 = Inr buf"
    "get_shoe_state ShoeAnimation_init 0.6 True = Inr shoe"
    "sine_rows ((sine_graph g) \<lparr> sine_buffer := buf \<rparr>) = Inr rows"
    "plot g 11 0.6 True []
       = Inr (g \<lparr> sine_graph := (sine_graph g) \<lparr> sine_buffer := buf \<rparr>,
                 first_render := False \<rparr>,
              [] @ frame (cursor_up g) (bar_line (bar_graph g) 11) shoe
                     (get_landing_line ShoeAnimation_init True) rows)"
    "int (length rows) = 9"
    "int (count_lines (frame (cursor_up g) (bar_line (bar_graph g) 11) shoe
                         (get_landing_line ShoeAnimation_init True) rows)) = 4 + 9"
    by blast
  then have "add_value (sine_buffer (sine_graph g)) 0.6 = Inr buf
       \<and> get_shoe_state ShoeAnimation_init 0.6 True = Inr shoe
       \<and> sine_rows ((sine_graph g) \<lparr> sine_buffer := buf \<rparr>) = Inr rows
       \<and> plot g 11 0.6 True []
           = Inr (g \<lparr> sine_graph := (sine_graph g) \<lparr> sine_buffer := buf \<rparr>,
                     first_render := False \<rparr>,
                  frame (cursor_up g) (bar_line (bar_graph g) 11) shoe
                    (get_landing_line ShoeAnimation_init True) rows)
       \<and> length rows = 9
       \<and> count_lines (frame (cursor_up g) (bar_line (bar_graph g) 11) shoe
                        (get_landing_line ShoeAnimation_init True) rows) = 13"
    by simp
  with g(1) have e: "\<exists>g buf shoe rows.
         DualGraph_init 50 (7.8, 11.8) 60 9 (-1, 1) = Inr g
       \<and> add_value (sine_buffer (sine_graph g)) 0.6 = Inr buf
       \<and> get_shoe_state ShoeAnimation_init 0.6 True = Inr shoe
       \<and> sine_rows ((sine_graph g) \<lparr> sine_buffer := buf \<rparr>) = Inr rows
       \<and> plot g 11 0.6 True []
           = Inr (g \<lparr> sine_graph := (sine_graph g) \<lparr> sine_buffer := buf \<rparr>,
                     first_render := False \<rparr>,
                  frame (cursor_up g) (bar_line (bar_graph g) 11) shoe
                    (get_landing_line ShoeAnimation_init True) rows)
       \<and> length rows = 9
       \<and> count_lines (frame (cursor_up g) (bar_line (bar_graph g) 11) shoe
                        (get_landing_line ShoeAnimation_init True) rows) = 13"
    by blast
  from t have "plot_session 50 (7.8, 11.8) 60 9 (-1, 1)
        [(9.8, 0, False), (11.7, 0.9, False), (11.0, 0.6, True)] = Inr (13, [13, 13, 13])"
    by (simp add: numeral_3_eq_3)
  with e show ?thesis by blast
qed

section \<open>The handshake\<close>

text \<open>Text in ASCII is encoded as it stands.\<close>

lemma encode_asc: "\<forall>c \<in> set s. of_char c < (128 :: nat) \<Longrightarrow> encode (asc s) = Inr s"
  by (induction s) (simp_all add: asc_def utf8_char_def)







text \<open>A handshake that is accepted does return the channel.\<close>

lemma connect_accepted:
  "connect_to_emulator
     \<lparr> open_reply = None, banner_reply = Inr ''Android Console: OK'',
       auth_write_reply = None, auth_response = Inr ''OK'' \<rparr> ''localhost'' 5554 (Some (asc ''secret''))
   = ([Open ''localhost'' 5554, ReadUntil ''OK'' 10, Write (''auth secret'' @ [CHR 0x0A]),
       ReadUntil ''OK'' 10], Inr True)"
proof -
  have "asc ''auth '' @ asc ''secret'' @ [10] = asc (''auth secret'' @ [CHR 0x0A])"
    by (simp add: asc_def)
  moreover have "encode (asc (''auth secret'' @ [CHR 0x0A])) = Inr (''auth secret'' @ [CHR 0x0A])"
    by (rule encode_asc) simp
  ultimately show ?thesis
    by (simp add: connect_to_emulator_def asc_def)
qed

section \<open>Leaving the loop\<close>

lemma set_sensor_data_no_close: "Close \<notin> set (fst (set_sensor_data w r s x y z))"
  by (simp add: set_sensor_data_def Let_def split: option.splits)

lemma sim_tick_no_close:
  "Close \<notin> set (calls st) \<Longrightarrow> Close \<notin> set (calls (fst (sim_tick st env)))"
  using set_sensor_data_no_close
  by (simp add: sim_tick_def Let_def split: option.splits sum.splits)

lemma sim_loop_no_close:
  "sim_loop st envs = Some (st', e) \<Longrightarrow> Close \<notin> set (calls st) \<Longrightarrow> Close \<notin> set (calls st')"
proof (induction envs arbitrary: st)
  case Nil
  then show ?case by simp
next
  case (Cons env envs)
  obtain st1 x where t: "sim_tick st env = (st1, x)" by (cases "sim_tick st env")
  have c: "Close \<notin> set (calls st1)"
    using sim_tick_no_close [OF Cons.prems(2), of env] t by simp
  show ?case
  proof (cases x)
    case None
    with Cons.prems(1) t have "sim_loop st1 envs = Some (st', e)" by simp
    from Cons.IH [OF this c] show ?thesis .
  next
    case (Some e')
    with Cons.prems(1) t have "st' = st1" by simp
    with c show ?thesis by simp
  qed
qed

lemma sim_tick_interrupts: "interrupts env \<Longrightarrow> snd (sim_tick st env) \<noteq> None"
  by (auto simp: interrupts_def sim_tick_def set_sensor_data_def Let_def uncaught_def
      is_Exception_def split: option.splits sum.splits)

lemma sim_loop_exits:
  "\<exists>env \<in> set envs. interrupts env \<Longrightarrow> \<exists>st' e. sim_loop st envs = Some (st', e)"
proof (induction envs arbitrary: st)
  case Nil
  then show ?case by simp
next
  case (Cons env envs)
  obtain st1 x where t: "sim_tick st env = (st1, x)" by (cases "sim_tick st env")
  show ?case
  proof (cases x)
    case (Some e')
    with t show ?thesis by simp
  next
    case None
    with t sim_tick_interrupts [of env st] have "\<not> interrupts env" by auto
    with Cons.prems have "\<exists>env \<in> set envs. interrupts env" by simp
    from Cons.IH [OF this, of st1] t None show ?thesis by simp
  qed
qed

lemma fmt_2f_0: "fmt_2f 0 = ''0.00''"
  by (simp add: fmt_2f_def fixed2_def py_round_def digits_of.simps digit_char_def)

lemma fmt_2f_neutral: "fmt_2f (49 / 5) = ''9.80''"
  by (simp add: fmt_2f_def fixed2_def py_round_def digits_of.simps digit_char_def)

lemma set_sensor_data_neutral:
  "set_sensor_data w r ''acceleration'' 0 (49 / 5) 0 =
     (Write neutral_command # (if w = None then [ReadUntil ''OK'' 2] else []),
      (case w of Some e \<Rightarrow> uncaught e | None \<Rightarrow> (case r of Some e \<Rightarrow> uncaught e | None \<Rightarrow> None)))"
  by (simp add: set_sensor_data_def fmt_2f_0 fmt_2f_neutral neutral_command_def split: option.splits)

lemma cleanup_calls:
  assumes "final_write_reply cenv \<noteq> Some KeyboardInterrupt"
    and "final_read_reply cenv \<noteq> Some KeyboardInterrupt"
  shows "cleanup cenv cs pending =
     (cs @ [Write neutral_command]
         @ (if final_write_reply cenv = None then [ReadUntil ''OK'' 2] else []) @ [Close],
      (case close_reply cenv of Some e \<Rightarrow> Some e | None \<Rightarrow> pending))"
  using assms
  by (auto simp: cleanup_def set_sensor_data_neutral uncaught_def is_Exception_def Let_def
      split: option.splits)

text \<open>
  With a sine width of at least 1 the graph stays well formed from round to round, so
  \<open>plot\<close> never raises and only the user's interrupt ends the loop.
\<close>

lemma set_sensor_data_uncaught:
  "snd (set_sensor_data wr rd sensor x y z) = None
   \<or> snd (set_sensor_data wr rd sensor x y z) = Some KeyboardInterrupt"
  by (simp add: set_sensor_data_def Let_def uncaught_def is_Exception_def split: option.splits)

lemma sim_tick_dg_ok:
  assumes ok: "dg_ok w h (dual_graph st)" and t: "sim_tick st env = (st', x)"
  shows "dg_ok w h (dual_graph st') \<and> (x = None \<or> x = Some KeyboardInterrupt)"
proof -
  have never: "plot (dual_graph st) a s b out \<noteq> Inl e" for a s b out e
    using plot_lines [OF ok, of a s b out] by auto
  have keeps: "dg_ok w h (fst r)" if "plot (dual_graph st) a s b out = Inr r" for a s b out r
    using plot_lines [OF ok, of a s b out] that by auto
  define xyz where "xyz = generate_walking_acceleration (step_counter st)"
  define sent where
    "sent = set_sensor_data (write_reply env) (read_reply env) ''acceleration''
              (fst xyz) (fst (snd xyz)) (snd (snd xyz))"
  have u: "snd sent = None \<or> snd sent = Some KeyboardInterrupt"
    unfolding sent_def by (rule set_sensor_data_uncaught)
  show ?thesis
    using t u ok never keeps
    unfolding sim_tick_def Let_def xyz_def [symmetric] sent_def [symmetric]
    by (auto split: option.splits sum.splits if_splits)
qed

lemma sim_loop_dg_ok:
  "dg_ok w h (dual_graph st) \<Longrightarrow> sim_loop st envs = Some (st', e) \<Longrightarrow> e = KeyboardInterrupt"
proof (induction envs arbitrary: st)
  case Nil
  then show ?case by simp
next
  case (Cons env envs)
  obtain st1 x where t: "sim_tick st env = (st1, x)" by (cases "sim_tick st env")
  from sim_tick_dg_ok [OF Cons.prems(1) t]
  have ok: "dg_ok w h (dual_graph st1)" and x: "x = None \<or> x = Some KeyboardInterrupt"
    by simp_all
  show ?case
  proof (cases x)
    case None
    with Cons.prems(2) t have "sim_loop st1 envs = Some (st', e)" by simp
    from Cons.IH [OF ok this] show ?thesis .
  next
    case (Some e')
    with x Cons.prems(2) t show ?thesis by simp
  qed
qed

text \<open>
  The first round sends the very text of the neutral command, since the trace starts at
  the baseline: the command is not told apart by its text, only by its place after the
  loop.
\<close>

lemma first_tick_sends_neutral_reading:
  "fst (set_sensor_data None None ''acceleration''
          (fst (generate_walking_acceleration 0))
          (fst (snd (generate_walking_acceleration 0)))
          (snd (snd (generate_walking_acceleration 0))))
     = [Write neutral_command, ReadUntil ''OK'' 2]"
  by (simp add: generate_walking_acceleration_def Y_BASELINE_def AMPLITUDE_def
      set_sensor_data_neutral)

text \<open>
  Claim C6. The graph was built and some round of the loop is interrupted by the user, at
  any position in the run; the cleanup itself is not interrupted. Then the loop ends, it
  has not closed the channel, and after the calls of the loop \<open>run_simulation\<close> makes
  exactly these: one write of the neutral command, the read of its acknowledgement when
  the write returned, and one close, in this order. When the loop ended by the interrupt
  and the close returns, \<open>run_simulation\<close> returns normally; with a sine width of at least
  1 the interrupt is the only way the loop ends. The cleanup is the same when the loop
  ends by an exception of its own.
\<close>

theorem interrupt_cleanup:
  assumes "sine_h \<noteq> 1"
    and "\<exists>env \<in> set envs. interrupts env"
    and "final_write_reply cenv \<noteq> Some KeyboardInterrupt"
    and "final_read_reply cenv \<noteq> Some KeyboardInterrupt"
  shows "\<exists>g st e x.
           DualGraph_init bar_w (Y_BASELINE - AMPLITUDE, Y_BASELINE + AMPLITUDE)
             sine_w sine_h (-1, 1) = Inr g
         \<and> sim_loop (sim_init g) envs = Some (st, e)
         \<and> Close \<notin> set (calls st)
         \<and> run_simulation envs cenv bar_w sine_w sine_h
             = Some (calls st @ [Write neutral_command]
                       @ (if final_write_reply cenv = None then [ReadUntil ''OK'' 2] else [])
                       @ [Close], x)
         \<and> (e = KeyboardInterrupt \<and> close_reply cenv = None \<longrightarrow> x = None)
         \<and> (1 \<le> sine_w \<longrightarrow> e = KeyboardInterrupt)"
proof -
  from DualGraph_init_ok [OF assms(1)] obtain g where
    g: "DualGraph_init bar_w (Y_BASELINE - AMPLITUDE, Y_BASELINE + AMPLITUDE)
          sine_w sine_h (-1, 1) = Inr g"
    by blast
  from sim_loop_exits [OF assms(2)] obtain st e where
    l: "sim_loop (sim_init g) envs = Some (st, e)"
    by blast
  have c: "Close \<notin> set (calls st)"
    by (rule sim_loop_no_close [OF l]) (simp add: sim_init_def)
  define pending where "pending = (if e = KeyboardInterrupt then None else Some e)"
  define x where "x = (case close_reply cenv of Some e \<Rightarrow> Some e | None \<Rightarrow> pending)"
  have r: "run_simulation envs cenv bar_w sine_w sine_h
             = Some (calls st @ [Write neutral_command]
                       @ (if final_write_reply cenv = None then [ReadUntil ''OK'' 2] else [])
                       @ [Close], x)"
    by (simp add: run_simulation_def g l cleanup_calls [OF assms(3,4)] x_def pending_def
        split: option.splits)
  have n: "e = KeyboardInterrupt \<and> close_reply cenv = None \<longrightarrow> x = None"
    by (simp add: x_def pending_def)
  have k: "1 \<le> sine_w \<longrightarrow> e = KeyboardInterrupt"
  proof
    assume w: "1 \<le> sine_w"
    have "fst (Y_BASELINE - AMPLITUDE, Y_BASELINE + AMPLITUDE)
            \<noteq> snd (Y_BASELINE - AMPLITUDE, Y_BASELINE + AMPLITUDE)"
      by (simp add: Y_BASELINE_def AMPLITUDE_def)
    moreover have "fst (-1 :: real, 1 :: real) \<noteq> snd (-1 :: real, 1 :: real)" by simp
    ultimately obtain g' where
      "DualGraph_init bar_w (Y_BASELINE - AMPLITUDE, Y_BASELINE + AMPLITUDE)
          sine_w sine_h (-1, 1) = Inr g'" "dg_ok sine_w sine_h g'"
      using DualGraph_init_dg_ok [OF assms(1) w] by blast
    with g have "dg_ok sine_w sine_h (dual_graph (sim_init g))"
      by (simp add: sim_init_def)
    from sim_loop_dg_ok [OF this l] show "e = KeyboardInterrupt" .
  qed
  from g l c r n k show ?thesis by blast
qed

theorem interrupt_cleanup_witness:
  "\<exists>g st.
      DualGraph_init 50 (Y_BASELINE - AMPLITUDE, Y_BASELINE + AMPLITUDE) 60 9 (-1, 1) = Inr g
    \<and> sim_loop (sim_init g)
         [\<lparr> write_reply = None, read_reply = None, sleep_interrupted = False \<rparr>,
          \<lparr> write_reply = None, read_reply = None, sleep_interrupted = True \<rparr>]
        = Some (st, KeyboardInterrupt)
    \<and> Close \<notin> set (calls st)
    \<and> run_simulation
         [\<lparr> write_reply = None, read_reply = None, sleep_interrupted = False \<rparr>,
          \<lparr> write_reply = None, read_reply = None, sleep_interrupted = True \<rparr>]
         \<lparr> final_write_reply = None, final_read_reply = None, close_reply = None \<rparr> 50 60 9
        = Some (calls st @ [Write neutral_command, ReadUntil ''OK'' 2, Close], None)"
proof -
  let ?envs = "[\<lparr> write_reply = None, read_reply = None, sleep_interrupted = False \<rparr>,
          \<lparr> write_reply = None, read_reply = None, sleep_interrupted = True \<rparr>]"
  let ?cenv = "\<lparr> final_write_reply = None, final_read_reply = None, close_reply = None \<rparr>"
  have h1: "(9::int) \<noteq> 1" by simp
  have h2: "\<exists>env \<in> set ?envs. interrupts env" by (simp add: interrupts_def)
  have h3: "final_write_reply ?cenv \<noteq> Some KeyboardInterrupt" by simp
  have h4: "final_read_reply ?cenv \<noteq> Some KeyboardInterrupt" by simp
  from interrupt_cleanup [OF h1 h2 h3 h4, of 50 60] obtain g st e x where
    t: "DualGraph_init 50 (Y_BASELINE - AMPLITUDE, Y_BASELINE + AMPLITUDE) 60 9 (-1, 1) = Inr g"
      "sim_loop (sim_init g) ?envs = Some (st, e)"
      "Close \<notin> set (calls st)"
      "run_simulation ?envs ?cenv 50 60 9
         = Some (calls st @ [Write neutral_command]
                   @ (if final_write_reply ?cenv = None then [ReadUntil ''OK'' 2] else [])
                   @ [Close], x)"
      "e = KeyboardInterrupt \<and> close_reply ?cenv = None \<longrightarrow> x = None"
      "(1::int) \<le> 60 \<longrightarrow> e = KeyboardInterrupt"
    by blast
  from t(6) have e: "e = KeyboardInterrupt" by simp
  with t(5) have x: "x = None" by simp
  from t(4) have "run_simulation ?envs ?cenv 50 60 9
         = Some (calls st @ [Write neutral_command, ReadUntil ''OK'' 2, Close], None)"
    unfolding x by simp
  with t(1,2,3) e show ?thesis by blast
qed

section \<open>The step detector on the generated trace\<close>


lemma trace_y_eq: "trace_y n = 9.8 + 2 * sin (1.25 * real n)"
  by (simp add: trace_y_def generate_walking_acceleration_def Y_BASELINE_def AMPLITUDE_def)

lemma detector_state_Suc:
  "detector_state (Suc n) = (trace_y n, trace_y n > fst (detector_state n))"
  by (simp add: detect_def Let_def trace_y_def)

lemma step_detected_at_eq:
  "step_detected_at n = (snd (detector_state n) \<and> \<not> trace_y n > fst (detector_state n))"
  by (simp add: step_detected_at_def detect_def Let_def trace_y_def)

lemma step_detected_at_0: "\<not> step_detected_at 0"
  by (simp add: step_detected_at_eq)

lemma step_detected_at_1: "\<not> step_detected_at (Suc 0)"
  by (simp add: step_detected_at_def detect_def Let_def generate_walking_acceleration_def
      Y_BASELINE_def AMPLITUDE_def)

lemma step_detected_at_Suc_Suc:
  "step_detected_at (Suc (Suc n)) =
     (trace_y (Suc n) > trace_y n \<and> \<not> trace_y (Suc (Suc n)) > trace_y (Suc n))"
  by (simp add: step_detected_at_eq detector_state_Suc del: detector_state.simps)

lemma sin_step_pos: "0 < sin (5 / 8 :: real)"
proof -
  have "(5 / 8 :: real) < pi" using pi_ge_two by simp
  then show ?thesis by (intro sin_gt_zero) simp_all
qed

lemma rising_iff: "(trace_y n < trace_y (Suc n)) = (0 < cos (5 / 4 * real n + 5 / 8))"
proof -
  have a: "(5 / 4 * real (Suc n) - 5 / 4 * real n) / 2 = 5 / 8"
    by (simp add: field_simps)
  have b: "(5 / 4 * real (Suc n) + 5 / 4 * real n) / 2 = 5 / 4 * real n + 5 / 8"
    by (simp add: field_simps)
  have "sin (5 / 4 * real (Suc n)) - sin (5 / 4 * real n)
          = 2 * sin (5 / 8) * cos (5 / 4 * real n + 5 / 8)"
    using sin_diff_sin [of "5 / 4 * real (Suc n)" "5 / 4 * real n"] unfolding a b .
  moreover have "(trace_y n < trace_y (Suc n))
                   = (0 < sin (5 / 4 * real (Suc n)) - sin (5 / 4 * real n))"
    by (simp add: trace_y_eq del: of_nat_Suc)
  ultimately have "(trace_y n < trace_y (Suc n))
                   = (0 < 2 * sin (5 / 8 :: real) * cos (5 / 4 * real n + 5 / 8))"
    by simp
  also have "\<dots> = (0 < cos (5 / 4 * real n + 5 / 8))"
    using sin_step_pos by (simp add: zero_less_mult_iff)
  finally show ?thesis .
qed

lemma cos_shift: "cos (u - 2 * pi * real k) = cos u"
proof -
  have e: "2 * pi * real k = 2 * real k * pi" by simp
  have "cos (2 * pi * real k) = 1" "sin (2 * pi * real k) = 0"
    unfolding e by (rule cos_2npi, rule sin_2npi)
  then show ?thesis by (simp add: cos_diff)
qed

lemma cos_nonpos: "pi / 2 \<le> u \<Longrightarrow> u \<le> 3 * pi / 2 \<Longrightarrow> cos u \<le> 0"
proof -
  assume "pi / 2 \<le> u" "u \<le> 3 * pi / 2"
  then have "0 \<le> cos (u - pi)" by (intro cos_ge_zero) simp_all
  then show ?thesis by (simp add: cos_diff)
qed

lemma cos_pos_late: "3 * pi / 2 < u \<Longrightarrow> u < 5 * pi / 2 \<Longrightarrow> 0 < cos u"
proof -
  assume "3 * pi / 2 < u" "u < 5 * pi / 2"
  then have "0 < cos (u - 2 * pi)" by (intro cos_gt_zero_pi) simp_all
  then show ?thesis by (simp add: cos_diff)
qed

text \<open>Inside one period, the flag is up exactly when the tick falls in one interval of length 1.25.\<close>

lemma detected_in_period:
  fixes k t :: nat
  assumes w: "2 * pi * real k \<le> 5 / 4 * real t" "5 / 4 * real t < 2 * pi * real (Suc k)"
  shows "step_detected_at t
           = (pi / 2 + 5 / 8 + 2 * pi * real k \<le> 5 / 4 * real t
              \<and> 5 / 4 * real t < pi / 2 + 15 / 8 + 2 * pi * real k)"
proof (cases t)
  case 0
  have "0 < pi / 2 + 5 / 8 + 2 * pi * real k" using pi_ge_two by (simp add: add_pos_nonneg)
  with 0 show ?thesis using step_detected_at_0 by simp
next
  case (Suc t1)
  show ?thesis
  proof (cases t1)
    case 0
    have "2 * pi * real k \<ge> 0" by simp
    then have "(5 / 4 :: real) < pi / 2 + 5 / 8 + 2 * pi * real k"
      using pi_ge_two by linarith
    with 0 Suc show ?thesis using step_detected_at_1 by simp
  next
    case (Suc n)
    with \<open>t = Suc t1\<close> have t: "t = Suc (Suc n)" by simp
    define x where "x = 5 / 4 * real t - 5 / 8 - 2 * pi * real k"
    have x1: "5 / 4 * real (Suc n) + 5 / 8 = x + 2 * pi * real k"
      and x0: "5 / 4 * real n + 5 / 8 = (x - 5 / 4) + 2 * pi * real k"
      by (simp_all add: x_def t field_simps)
    have unshift: "cos (u + 2 * pi * real k) = cos u" for u
      using cos_shift [of "u + 2 * pi * real k" k] by simp
    have c1: "cos (5 / 4 * real (Suc n) + 5 / 8) = cos x"
      by (simp only: x1 unshift)
    have c0: "cos (5 / 4 * real n + 5 / 8) = cos (x - 5 / 4)"
      by (simp only: x0 unshift)
    have d: "step_detected_at t = (0 < cos (x - 5 / 4) \<and> \<not> 0 < cos x)"
      by (simp only: t step_detected_at_Suc_Suc rising_iff c0 c1)
    have lo: "- (5 / 8) \<le> x" and hi: "x < 2 * pi - 5 / 8"
      using w by (simp_all add: x_def algebra_simps)
    have "(0 < cos (x - 5 / 4) \<and> \<not> 0 < cos x) = (pi / 2 \<le> x \<and> x < pi / 2 + 5 / 4)"
    proof
      assume a: "0 < cos (x - 5 / 4) \<and> \<not> 0 < cos x"
      have 1: "pi / 2 \<le> x"
      proof (rule ccontr)
        assume "\<not> pi / 2 \<le> x"
        then have "0 < cos x" using lo pi_ge_two by (intro cos_gt_zero_pi) linarith+
        with a show False by simp
      qed
      have 2: "x \<le> 3 * pi / 2"
      proof (rule ccontr)
        assume "\<not> x \<le> 3 * pi / 2"
        then have "0 < cos x" using hi pi_ge_two by (intro cos_pos_late) linarith+
        with a show False by simp
      qed
      have 3: "x - 5 / 4 < pi / 2"
      proof (rule ccontr)
        assume "\<not> x - 5 / 4 < pi / 2"
        then have "cos (x - 5 / 4) \<le> 0" using 2 by (intro cos_nonpos) linarith+
        with a show False by simp
      qed
      from 1 3 show "pi / 2 \<le> x \<and> x < pi / 2 + 5 / 4" by simp
    next
      assume a: "pi / 2 \<le> x \<and> x < pi / 2 + 5 / 4"
      then have "cos x \<le> 0" using pi_ge_two by (intro cos_nonpos) linarith+
      moreover from a have "0 < cos (x - 5 / 4)"
        using pi_ge_two by (intro cos_gt_zero_pi) linarith+
      ultimately show "0 < cos (x - 5 / 4) \<and> \<not> 0 < cos x" by simp
    qed
    also have "\<dots> = (pi / 2 + 5 / 8 + 2 * pi * real k \<le> 5 / 4 * real t
              \<and> 5 / 4 * real t < pi / 2 + 15 / 8 + 2 * pi * real k)"
      by (auto simp: x_def)
    finally show ?thesis using d by simp
  qed
qed


lemma detected_once_per_period:
  fixes k :: nat
  shows "\<exists>!t. 2 * pi * real k \<le> 5 / 4 * real t \<and> 5 / 4 * real t < 2 * pi * real (Suc k)
              \<and> step_detected_at t"
proof -
  define A where "A = pi / 2 + 5 / 8 + 2 * pi * real k"
  have k0: "0 \<le> 2 * pi * real k" by simp
  have A0: "0 < A" using k0 pi_ge_two unfolding A_def by linarith
  have period: "2 * pi * real (Suc k) = 2 * pi * real k + 2 * pi"
    by (simp add: algebra_simps)
  have inside: "2 * pi * real k \<le> 5 / 4 * real t \<and> 5 / 4 * real t < 2 * pi * real (Suc k)"
    if "A \<le> 5 / 4 * real t" "5 / 4 * real t < A + 5 / 4" for t :: nat
    using that pi_ge_two unfolding A_def period by linarith
  have char: "(2 * pi * real k \<le> 5 / 4 * real t \<and> 5 / 4 * real t < 2 * pi * real (Suc k)
                \<and> step_detected_at t)
              = (A \<le> 5 / 4 * real t \<and> 5 / 4 * real t < A + 5 / 4)" for t :: nat
  proof (cases "2 * pi * real k \<le> 5 / 4 * real t \<and> 5 / 4 * real t < 2 * pi * real (Suc k)")
    case True
    then show ?thesis
      using detected_in_period [of k t] by (auto simp: A_def)
  next
    case False
    then show ?thesis using inside [of t] by blast
  qed
  define t0 where "t0 = nat \<lceil>A / (5 / 4)\<rceil>"
  have "0 \<le> \<lceil>A / (5 / 4)\<rceil>" using A0 by simp
  then have r: "real t0 = of_int \<lceil>A / (5 / 4)\<rceil>" by (simp add: t0_def)
  have "A / (5 / 4) \<le> real t0" "real t0 < A / (5 / 4) + 1"
    unfolding r by linarith+
  then have e: "A \<le> 5 / 4 * real t0 \<and> 5 / 4 * real t0 < A + 5 / 4"
    by (simp add: field_simps)
  show ?thesis
  proof (rule ex1I [of _ t0])
    show "2 * pi * real k \<le> 5 / 4 * real t0 \<and> 5 / 4 * real t0 < 2 * pi * real (Suc k)
            \<and> step_detected_at t0"
      using e by (simp only: char)
  next
    fix t :: nat
    assume "2 * pi * real k \<le> 5 / 4 * real t \<and> 5 / 4 * real t < 2 * pi * real (Suc k)
              \<and> step_detected_at t"
    then have "A \<le> 5 / 4 * real t \<and> 5 / 4 * real t < A + 5 / 4"
      by (simp only: char)
    with e have "real t < real t0 + 1" "real t0 < real t + 1" by linarith+
    then show "t = t0" by linarith
  qed
qed

lemma trace_y_less_iff: "(trace_y m < trace_y n) = (sin (5 / 4 * real m) < sin (5 / 4 * real n))"
  by (simp add: trace_y_eq)

section \<open>Bounds on pi\<close>

lemma arctan_between:
  fixes x :: real
  assumes "0 < x" "x \<le> 1"
  shows "(\<Sum>i<2 * n. (- 1) ^ i * (1 / real (i * 2 + 1) * x ^ (i * 2 + 1))) \<le> arctan x"
    and "arctan x \<le> (\<Sum>i<2 * n + 1. (- 1) ^ i * (1 / real (i * 2 + 1) * x ^ (i * 2 + 1)))"
proof -
  have a: "\<bar>x\<bar> \<le> 1" using assms by simp
  have p: "0 < 1 / real (0 * 2 + 1) * x ^ (0 * 2 + 1)" using assms by simp
  from summable_Leibniz(2) [OF zeroseq_arctan_series [OF a] monoseq_arctan_series [OF a]] p
  have "(\<Sum>i. (- 1) ^ i * (1 / real (i * 2 + 1) * x ^ (i * 2 + 1)))
          \<in> {\<Sum>i<2 * n. (- 1) ^ i * (1 / real (i * 2 + 1) * x ^ (i * 2 + 1)) ..
             \<Sum>i<2 * n + 1. (- 1) ^ i * (1 / real (i * 2 + 1) * x ^ (i * 2 + 1))}"
    by blast
  then show "(\<Sum>i<2 * n. (- 1) ^ i * (1 / real (i * 2 + 1) * x ^ (i * 2 + 1))) \<le> arctan x"
    and "arctan x \<le> (\<Sum>i<2 * n + 1. (- 1) ^ i * (1 / real (i * 2 + 1) * x ^ (i * 2 + 1)))"
    by (simp_all add: arctan_series [OF a])
qed

lemma pi_bounds: "3.1405 < pi" "pi < 3.1417"
proof -
  have l5: "74 / 375 \<le> arctan (1 / 5 :: real)"
    using arctan_between(1) [of "1 / 5" 1]
    by (simp add: lessThan_nat_numeral lessThan_Suc power_divide eval_nat_numeral)
  have u5: "arctan (1 / 5 :: real) \<le> 9253 / 46875"
    using arctan_between(2) [of "1 / 5" 1]
    by (simp add: lessThan_nat_numeral lessThan_Suc power_divide eval_nat_numeral)
  have l239: "171362 / 40955757 \<le> arctan (1 / 239 :: real)"
    using arctan_between(1) [of "1 / 239" 1]
    by (simp add: lessThan_nat_numeral lessThan_Suc power_divide eval_nat_numeral)
  have u239: "arctan (1 / 239 :: real) \<le> 1 / 239"
    using arctan_between(2) [of "1 / 239" 0] by simp
  have m: "pi = 16 * arctan (1 / 5) - 4 * arctan (1 / 239)"
    using machin by simp
  show "3.1405 < pi" using l5 u239 unfolding m by simp
  show "pi < 3.1417" using u5 l239 unfolding m by simp
qed

section \<open>The sampled maximum and the maximum of the sine\<close>

lemma sin_shift: "sin (u + 2 * pi * real k) = sin u"
proof -
  have e: "2 * pi * real k = 2 * real k * pi" by simp
  have "cos (2 * pi * real k) = 1" "sin (2 * pi * real k) = 0"
    unfolding e by (rule cos_2npi, rule sin_2npi)
  then show ?thesis by (simp add: sin_add)
qed

lemma detected_52_53: "\<not> step_detected_at 52" "step_detected_at 53"
proof -
  have w52: "2 * pi * real (10 :: nat) \<le> 5 / 4 * real (52 :: nat)"
    "5 / 4 * real (52 :: nat) < 2 * pi * real (Suc 10)"
    using pi_bounds by simp_all
  have w53: "2 * pi * real (10 :: nat) \<le> 5 / 4 * real (53 :: nat)"
    "5 / 4 * real (53 :: nat) < 2 * pi * real (Suc 10)"
    using pi_bounds by simp_all
  show "\<not> step_detected_at 52"
    using detected_in_period [OF w52] pi_bounds by simp
  show "step_detected_at 53"
    using detected_in_period [OF w53] pi_bounds by simp
qed

text \<open>
  Against claim C2 read on the sine itself: \<open>sin (1.25 * s)\<close> has a maximum at
  \<open>s = 82 * pi / 5\<close>, between ticks 51 and 52. The first tick after it is 52, where the
  detector is silent; it fires on tick 53, the tick after the largest sample.
\<close>

theorem step_detection_continuous_maximum_counterexample:
  "sin (1.25 * (82 * pi / 5)) = 1
   \<and> 51 < 82 * pi / 5 \<and> 82 * pi / 5 < 52
   \<and> \<not> step_detected_at 52 \<and> step_detected_at 53"
proof -
  have "1.25 * (82 * pi / 5) = pi / 2 + 2 * pi * real (10 :: nat)" by simp
  then have "sin (1.25 * (82 * pi / 5)) = sin (pi / 2)"
    by (simp only: sin_shift)
  then have 1: "sin (1.25 * (82 * pi / 5)) = 1" by simp
  have 2: "51 < 82 * pi / 5" "82 * pi / 5 < 52" using pi_bounds by simp_all
  from 1 2 detected_52_53 show ?thesis by simp
qed

lemma detected_2: "step_detected_at 2"
proof -
  have w: "2 * pi * real (0 :: nat) \<le> 5 / 4 * real (2 :: nat)"
    "5 / 4 * real (2 :: nat) < 2 * pi * real (Suc 0)"
    using pi_bounds by simp_all
  show ?thesis
    using detected_in_period [OF w] pi_bounds by simp
qed

section \<open>The detector inside the loop\<close>

lemma set_sensor_data_not_interrupted:
  "\<not> interrupts env \<Longrightarrow>
   snd (set_sensor_data (write_reply env) (read_reply env) sensor x y z) = None"
  by (auto simp: interrupts_def set_sensor_data_def Let_def uncaught_def is_Exception_def
      split: option.splits)

text \<open>The state at the head of round \<open>n\<close> of a run that nothing has interrupted.\<close>

lemma sim_tick_frame:
  assumes ok: "dg_ok w h (dual_graph st)" and ni: "\<not> interrupts env"
    and n: "step_counter st = int n"
    and d: "(previous_y st, was_rising st) = detector_state n"
  shows "\<exists>st' shoe rows.
           sim_tick st env = (st', None)
         \<and> get_shoe_state ShoeAnimation_init (sin (1.25 * real n)) (step_detected_at n) = Inr shoe
         \<and> stdout st' = stdout st
              @ frame (cursor_up (dual_graph st)) (bar_line (bar_graph (dual_graph st)) (trace_y n))
                  shoe (get_landing_line ShoeAnimation_init (step_detected_at n)) rows
         \<and> dg_ok w h (dual_graph st')
         \<and> bar_graph (dual_graph st') = bar_graph (dual_graph st)
         \<and> step_counter st' = int (Suc n)
         \<and> (previous_y st', was_rising st') = detector_state (Suc n)"
proof -
  define Y where "Y = fst (snd (generate_walking_acceleration (step_counter st)))"
  define S where "S = sin (1.25 * real_of_int (step_counter st))"
  define D where "D = (was_rising st \<and> \<not> Y > previous_y st)"
  have Y: "Y = trace_y n" by (simp add: Y_def trace_y_def n)
  have S: "S = sin (1.25 * real n)" by (simp add: S_def n)
  have py: "previous_y st = fst (detector_state n)" and wr: "was_rising st = snd (detector_state n)"
    using d by (metis fst_conv, metis snd_conv)
  have D: "D = step_detected_at n"
    by (simp add: D_def step_detected_at_eq Y py wr)
  from plot_frame [OF ok, of S D Y "stdout st"] obtain buf shoe rows where
    p: "get_shoe_state ShoeAnimation_init S D = Inr shoe"
      "plot (dual_graph st) Y S D (stdout st)
         = Inr ((dual_graph st) \<lparr> sine_graph := (sine_graph (dual_graph st)) \<lparr> sine_buffer := buf \<rparr>,
                                  first_render := False \<rparr>,
                stdout st @ frame (cursor_up (dual_graph st)) (bar_line (bar_graph (dual_graph st)) Y)
                              shoe (get_landing_line ShoeAnimation_init D) rows)"
      "dg_ok w h ((dual_graph st) \<lparr> sine_graph := (sine_graph (dual_graph st)) \<lparr> sine_buffer := buf \<rparr>,
                                    first_render := False \<rparr>)"
    by blast
  have sent: "snd (set_sensor_data (write_reply env) (read_reply env) ''acceleration''
                     (fst (generate_walking_acceleration (step_counter st))) Y
                     (snd (snd (generate_walking_acceleration (step_counter st))))) = None"
    by (rule set_sensor_data_not_interrupted [OF ni])
  have sl: "\<not> sleep_interrupted env" using ni by (simp add: interrupts_def)
  define st' where
    "st' = st \<lparr> calls := calls st @ fst (set_sensor_data (write_reply env) (read_reply env)
                     ''acceleration'' (fst (generate_walking_acceleration (step_counter st))) Y
                     (snd (snd (generate_walking_acceleration (step_counter st))))),
               dual_graph := (dual_graph st) \<lparr> sine_graph := (sine_graph (dual_graph st)) \<lparr> sine_buffer := buf \<rparr>,
                                  first_render := False \<rparr>,
               stdout := stdout st @ frame (cursor_up (dual_graph st)) (bar_line (bar_graph (dual_graph st)) Y)
                              shoe (get_landing_line ShoeAnimation_init D) rows,
               was_rising := (Y > previous_y st), previous_y := Y,
               step_counter := step_counter st + 1 \<rparr>"
  have t: "sim_tick st env = (st', None)"
    unfolding sim_tick_def Let_def Y_def [symmetric] S_def [symmetric] D_def [symmetric] sent p(2)
    using sl by (simp add: st'_def)
  have ds: "(previous_y st', was_rising st') = detector_state (Suc n)"
    by (simp add: st'_def detector_state_Suc Y py del: detector_state.simps)
  have shoe': "get_shoe_state ShoeAnimation_init (sin (1.25 * real n)) (step_detected_at n)
                 = Inr shoe"
    using p(1) unfolding S D .
  have out': "stdout st' = stdout st
              @ frame (cursor_up (dual_graph st)) (bar_line (bar_graph (dual_graph st)) (trace_y n))
                  shoe (get_landing_line ShoeAnimation_init (step_detected_at n)) rows"
    by (simp add: st'_def Y D)
  have ok': "dg_ok w h (dual_graph st')" using p(3) by (simp add: st'_def)
  have bg: "bar_graph (dual_graph st') = bar_graph (dual_graph st)" by (simp add: st'_def)
  have sc: "step_counter st' = int (Suc n)" by (simp add: st'_def n)
  from t shoe' out' ok' bg sc ds show ?thesis by blast
qed

lemma sim_rounds_uninterrupted:
  assumes "\<forall>e \<in> set envs. \<not> interrupts e"
  shows "dg_ok w h (dual_graph st) \<Longrightarrow> step_counter st = int n \<Longrightarrow>
         (previous_y st, was_rising st) = detector_state n \<Longrightarrow>
         \<exists>st'. sim_rounds st envs = (st', None)
              \<and> dg_ok w h (dual_graph st')
              \<and> bar_graph (dual_graph st') = bar_graph (dual_graph st)
              \<and> step_counter st' = int (n + length envs)
              \<and> (previous_y st', was_rising st') = detector_state (n + length envs)"
  using assms
proof (induction envs arbitrary: st n)
  case Nil
  then show ?case by simp
next
  case (Cons env envs)
  from Cons.prems(4) have ni: "\<not> interrupts env" and rest: "\<forall>e \<in> set envs. \<not> interrupts e"
    by simp_all
  from sim_tick_frame [OF Cons.prems(1) ni Cons.prems(2,3)] obtain st1 where
    s1: "sim_tick st env = (st1, None)" "dg_ok w h (dual_graph st1)"
      "bar_graph (dual_graph st1) = bar_graph (dual_graph st)"
      "step_counter st1 = int (Suc n)"
      "(previous_y st1, was_rising st1) = detector_state (Suc n)"
    by blast
  from Cons.IH [OF s1(2,4,5) rest] obtain st' where
    "sim_rounds st1 envs = (st', None)" "dg_ok w h (dual_graph st')"
    "bar_graph (dual_graph st') = bar_graph (dual_graph st1)"
    "step_counter st' = int (Suc n + length envs)"
    "(previous_y st', was_rising st') = detector_state (Suc n + length envs)"
    by blast
  with s1(1,3) show ?case by (simp del: detector_state.simps)
qed

text \<open>The loop of \<open>run_simulation\<close> is these rounds, up to the exception that ends it.\<close>

lemma sim_loop_rounds:
  "sim_loop st envs =
     (case sim_rounds st envs of (st', Some e) \<Rightarrow> Some (st', e) | (st', None) \<Rightarrow> None)"
  by (induction envs arbitrary: st) (auto split: prod.splits option.splits)

text \<open>
  Claim C2, amended. The local maxima are those of the sampled trace: tick \<open>m\<close> is one
  when its sample exceeds the sample before and is not exceeded by the sample after.
  The detector, seeded with \<open>previous_y = 9.8\<close> and \<open>was_rising = False\<close> and fed the
  generated trace from tick 0 on, does not fire on tick 0, nor on tick 1; from tick 2 on
  it fires exactly on the tick after such a maximum; and it fires exactly once in every
  full period, that is, for every \<open>k\<close> on exactly one tick \<open>t\<close> with phase \<open>1.25 * t\<close> in
  \<open>[2 * pi * k, 2 * pi * (k + 1))\<close>. This flag is the one the loop of \<open>run_simulation\<close>
  works with: after any number of rounds that no interrupt ends, the next round prints
  the frame whose shoe-state line and landing line are those of the flag of its tick.
\<close>

theorem step_detection_on_sine:
  assumes "sine_h \<noteq> 1" and "1 \<le> sine_w"
    and "\<forall>e \<in> set envs. \<not> interrupts e" and "\<not> interrupts env"
  shows "\<not> step_detected_at 0
   \<and> \<not> step_detected_at 1
   \<and> (\<forall>n. step_detected_at (n + 2)
          = (sin (1.25 * real n) < sin (1.25 * real (n + 1))
             \<and> sin (1.25 * real (n + 2)) \<le> sin (1.25 * real (n + 1))))
   \<and> (\<forall>k. \<exists>!t. 2 * pi * real k \<le> 1.25 * real t \<and> 1.25 * real t < 2 * pi * real (k + 1)
              \<and> step_detected_at t)
   \<and> (\<exists>g st st' shoe rows.
         DualGraph_init bar_w (Y_BASELINE - AMPLITUDE, Y_BASELINE + AMPLITUDE)
           sine_w sine_h (-1, 1) = Inr g
       \<and> sim_rounds (sim_init g) envs = (st, None)
       \<and> sim_tick st env = (st', None)
       \<and> get_shoe_state ShoeAnimation_init (sin (1.25 * real (length envs)))
           (step_detected_at (length envs)) = Inr shoe
       \<and> stdout st' = stdout st
            @ frame (cursor_up (dual_graph st)) (bar_line (bar_graph g) (trace_y (length envs)))
                shoe (get_landing_line ShoeAnimation_init (step_detected_at (length envs))) rows)"
proof -
  have 3: "step_detected_at (n + 2)
          = (sin (1.25 * real n) < sin (1.25 * real (n + 1))
             \<and> sin (1.25 * real (n + 2)) \<le> sin (1.25 * real (n + 1)))" for n
    using step_detected_at_Suc_Suc [of n]
    by (simp add: trace_y_less_iff not_less add.commute)
  have 4: "\<exists>!t. 2 * pi * real k \<le> 1.25 * real t \<and> 1.25 * real t < 2 * pi * real (k + 1)
              \<and> step_detected_at t" for k
    using detected_once_per_period [of k] by simp
  have "fst (Y_BASELINE - AMPLITUDE, Y_BASELINE + AMPLITUDE)
          \<noteq> snd (Y_BASELINE - AMPLITUDE, Y_BASELINE + AMPLITUDE)"
    by (simp add: Y_BASELINE_def AMPLITUDE_def)
  moreover have "fst (-1 :: real, 1 :: real) \<noteq> snd (-1 :: real, 1 :: real)" by simp
  ultimately obtain g where
    g: "DualGraph_init bar_w (Y_BASELINE - AMPLITUDE, Y_BASELINE + AMPLITUDE)
          sine_w sine_h (-1, 1) = Inr g" "dg_ok sine_w sine_h g"
    using DualGraph_init_dg_ok [OF assms(1,2)] by blast
  have i: "dg_ok sine_w sine_h (dual_graph (sim_init g))" "step_counter (sim_init g) = int 0"
    "(previous_y (sim_init g), was_rising (sim_init g)) = detector_state 0"
    using g(2) by (simp_all add: sim_init_def)
  from sim_rounds_uninterrupted [OF assms(3) i] obtain st where
    st: "sim_rounds (sim_init g) envs = (st, None)" "dg_ok sine_w sine_h (dual_graph st)"
      "bar_graph (dual_graph st) = bar_graph (dual_graph (sim_init g))"
      "step_counter st = int (0 + length envs)"
      "(previous_y st, was_rising st) = detector_state (0 + length envs)"
    by blast
  have bg: "bar_graph (dual_graph st) = bar_graph g"
    using st(3) by (simp add: sim_init_def)
  from sim_tick_frame [OF st(2) assms(4), of "length envs"] st(4,5) obtain st' shoe rows where
    "sim_tick st env = (st', None)"
    "get_shoe_state ShoeAnimation_init (sin (1.25 * real (length envs)))
       (step_detected_at (length envs)) = Inr shoe"
    "stdout st' = stdout st
       @ frame (cursor_up (dual_graph st))
           (bar_line (bar_graph (dual_graph st)) (trace_y (length envs)))
           shoe (get_landing_line ShoeAnimation_init (step_detected_at (length envs))) rows"
    by auto
  with g(1) st(1) bg have 5: "\<exists>g st st' shoe rows.
         DualGraph_init bar_w (Y_BASELINE - AMPLITUDE, Y_BASELINE + AMPLITUDE)
           sine_w sine_h (-1, 1) = Inr g
       \<and> sim_rounds (sim_init g) envs = (st, None)
       \<and> sim_tick st env = (st', None)
       \<and> get_shoe_state ShoeAnimation_init (sin (1.25 * real (length envs)))
           (step_detected_at (length envs)) = Inr shoe
       \<and> stdout st' = stdout st
            @ frame (cursor_up (dual_graph st)) (bar_line (bar_graph g) (trace_y (length envs)))
                shoe (get_landing_line ShoeAnimation_init (step_detected_at (length envs))) rows"
    by metis
  from step_detected_at_0 step_detected_at_1 3 4 5 show ?thesis by simp
qed

theorem step_detection_on_sine_witness:
  "\<not> step_detected_at 0
   \<and> step_detected_at 2
   \<and> (\<exists>t. 1.25 * real t < 2 * pi \<and> step_detected_at t)
   \<and> (\<exists>g st st' rows.
         DualGraph_init 50 (Y_BASELINE - AMPLITUDE, Y_BASELINE + AMPLITUDE) 60 9 (-1, 1) = Inr g
       \<and> sim_rounds (sim_init g)
           [\<lparr> write_reply = None, read_reply = None, sleep_interrupted = False \<rparr>,
            \<lparr> write_reply = None, read_reply = None, sleep_interrupted = False \<rparr>] = (st, None)
       \<and> sim_tick st \<lparr> write_reply = None, read_reply = None, sleep_interrupted = False \<rparr>
           = (st', None)
       \<and> stdout st' = stdout st
            @ frame (cursor_up (dual_graph st)) (bar_line (bar_graph g) (trace_y 2))
                ([128095] @ asc '' Step: ['' @ [9644, 9644, 9644] @ asc ''] ''
                   @ [8600] @ asc '' Landing!'')
                ([129462] @ asc '' STEP LANDED! '' @ [129462]) rows)"
proof -
  let ?ok = "\<lparr> write_reply = None, read_reply = None, sleep_interrupted = False \<rparr>"
  have h: "(9::int) \<noteq> 1" "(1::int) \<le> 60" "\<forall>e \<in> set [?ok, ?ok]. \<not> interrupts e"
    "\<not> interrupts ?ok"
    by (simp_all add: interrupts_def)
  note t = step_detection_on_sine [OF h, of 50]
  from t have z: "\<not> step_detected_at 0" by blast
  from t have "\<exists>!t. 2 * pi * real (0::nat) \<le> 1.25 * real t
                  \<and> 1.25 * real t < 2 * pi * real ((0::nat) + 1) \<and> step_detected_at t"
    by blast
  then obtain u where "1.25 * real u < 2 * pi * real ((0::nat) + 1)" "step_detected_at u"
    by blast
  then have e: "\<exists>t. 1.25 * real t < 2 * pi \<and> step_detected_at t" by auto
  have s: "0.5 \<le> sin (1.25 * real (2 :: nat))"
  proof -
    have "sin (pi / 6) \<le> sin (5 / 2 :: real)"
    proof -
      have "sin (5 / 2 :: real) = sin (pi - 5 / 2)" by simp
      moreover have "sin (pi / 6) \<le> sin (pi - 5 / 2)"
        using pi_bounds by (intro sin_monotone_2pi_le) simp_all
      ultimately show ?thesis by simp
    qed
    then show ?thesis by (simp add: sin_30)
  qed
  from t obtain g st st' shoe rows where
    r: "DualGraph_init 50 (Y_BASELINE - AMPLITUDE, Y_BASELINE + AMPLITUDE) 60 9 (-1, 1) = Inr g"
      "sim_rounds (sim_init g) [?ok, ?ok] = (st, None)"
      "sim_tick st ?ok = (st', None)"
      "get_shoe_state ShoeAnimation_init (sin (1.25 * real (length [?ok, ?ok])))
         (step_detected_at (length [?ok, ?ok])) = Inr shoe"
      "stdout st' = stdout st
         @ frame (cursor_up (dual_graph st)) (bar_line (bar_graph g) (trace_y (length [?ok, ?ok])))
             shoe (get_landing_line ShoeAnimation_init (step_detected_at (length [?ok, ?ok]))) rows"
    by blast
  have l: "length [?ok, ?ok] = 2" by simp
  have shoe: "shoe = [128095] @ asc '' Step: ['' @ [9644, 9644, 9644] @ asc ''] ''
                   @ [8600] @ asc '' Landing!''"
    using r(4) s detected_2 unfolding l
    by (simp add: get_shoe_state_def ShoeAnimation_init_def dict_get_def shoe_prefix_def asc_def)
  have landing: "get_landing_line ShoeAnimation_init (step_detected_at 2)
                   = [129462] @ asc '' STEP LANDED! '' @ [129462]"
    using detected_2 by (simp add: get_landing_line_def ShoeAnimation_init_def)
  from r(5) have "stdout st' = stdout st
            @ frame (cursor_up (dual_graph st)) (bar_line (bar_graph g) (trace_y 2))
                ([128095] @ asc '' Step: ['' @ [9644, 9644, 9644] @ asc ''] ''
                   @ [8600] @ asc '' Landing!'')
                ([129462] @ asc '' STEP LANDED! '' @ [129462]) rows"
    unfolding l landing shoe .
  with r(1,2,3) z e detected_2 show ?thesis by blast
qed

end
